theory Spec2Isabelle
  imports Main "HOL-Library.Char_ord" "HOL-Library.List_Lexorder" "HOL-Library.Multiset"
begin

section \<open>Data model of the daily cleaning summary (src/main.py)\<close>

text \<open>
  The script reads JSON records from a property-operations API and reads their fields with
  \<^verbatim>\<open>.get\<close>. A field that is absent (or null) is \<open>None\<close>; a string field that is
  present is \<open>Some s\<close>. A Python \<^verbatim>\<open>str\<close> is modelled by its UTF-8 bytes: equality,
  concatenation and emptiness are the same on both sides, and the byte-wise lexicographic order of
  \<^typ>\<open>string\<close> is the code-point order Python compares strings with.
\<close>

record assignment =
  a_name :: "string option"
  type_task_user_status :: "string option"

text \<open>
  A task record. \<open>assignments\<close> absent or null is the empty list: the source only tests
  the field for truth and iterates it.
\<close>

record task =
  t_id :: "int option"
  type_department :: "string option"
  t_type :: "string option"
  t_name :: "string option"
  finished_at :: "string option"
  assignments :: "assignment list"

record property =
  p_id :: "int option"
  p_name :: "string option"
  p_status :: "string option"

record reservation =
  property_id :: "int option"
  checkout_date :: string

text \<open>The value stored in \<^verbatim>\<open>property_map\<close>: the dict \<^verbatim>\<open>{"name": ...}\<close>.\<close>

record prop_info =
  pi_name :: string

text \<open>The JSON body of one page of the task listing used by the status resolver.\<close>

record task_page =
  tp_results :: "task list"
  tp_total_pages :: "int option"
  tp_page :: "int option"

text \<open>
  The record source (the HTTP API behind \<^verbatim>\<open>requests.get\<close>). Each endpoint maps the
  parameters the script puts into the URL to \<open>Some body\<close> for status 200 and to \<open>None\<close>
  for any other status. The source answers the same request the same way during one run.
\<close>

record source =
  get_property :: "nat \<Rightarrow> nat \<Rightarrow> property list option"
  get_reservation :: "bool \<Rightarrow> string \<Rightarrow> nat \<Rightarrow> nat \<Rightarrow> reservation list option"
  get_task :: "int option \<Rightarrow> string \<Rightarrow> nat \<Rightarrow> nat \<Rightarrow> task list option"
  get_task_window :: "int option \<Rightarrow> string \<Rightarrow> string \<Rightarrow> int \<Rightarrow> task_page option"
  get_task_detail :: "int \<Rightarrow> task option"

text \<open>The exceptions the modelled code could raise: indexing an empty list, comparing \<^verbatim>\<open>None\<close>.\<close>

datatype py_error = IndexError | TypeError

section \<open>Python primitives\<close>

text \<open>Truth value of \<^verbatim>\<open>d.get(k)\<close> for a string field: absent and empty are false.\<close>

definition truthy :: "string option \<Rightarrow> bool" where
  "truthy v = (case v of None \<Rightarrow> False | Some s \<Rightarrow> s \<noteq> [])"

text \<open>\<^verbatim>\<open>d.get(k) or default\<close>.\<close>

definition or_default :: "string option \<Rightarrow> string \<Rightarrow> string" where
  "or_default v d = (case v of None \<Rightarrow> d | Some s \<Rightarrow> if s \<noteq> [] then s else d)"

definition nl :: string where
  "nl = [CHR 0x0A]"

text \<open>The right single quotation mark U+2019 of the two report headers, in UTF-8.\<close>

definition rsquo :: string where
  "rsquo = [CHR 0xE2, CHR 0x80, CHR 0x99]"

text \<open>\<^verbatim>\<open>"\n".join(lines)\<close>.\<close>

fun join_lines :: "string list \<Rightarrow> string" where
  "join_lines [] = []"
| "join_lines [l] = l"
| "join_lines (l # m # ls) = l @ nl @ join_lines (m # ls)"

text \<open>
  \<^verbatim>\<open>s[:n]\<close> counts code points. In UTF-8 a byte in the range 0x80..0xBF continues the
  code point begun before it, so it is kept with that code point and not counted.
\<close>

definition is_continuation :: "char \<Rightarrow> bool" where
  "is_continuation c = (128 \<le> (of_char c :: nat) \<and> (of_char c :: nat) < 192)"

fun take_chars :: "nat \<Rightarrow> string \<Rightarrow> string" where
  "take_chars n [] = []"
| "take_chars n (c # cs) =
     (if is_continuation c then c # take_chars n cs
      else (case n of 0 \<Rightarrow> [] | Suc m \<Rightarrow> c # take_chars m cs))"

text \<open>
  A dict keeps its keys in insertion order; assigning to a key that is present replaces the
  value and keeps the key's position.
\<close>

fun dict_set :: "('k \<times> 'v) list \<Rightarrow> 'k \<Rightarrow> 'v \<Rightarrow> ('k \<times> 'v) list" where
  "dict_set [] k v = [(k, v)]"
| "dict_set ((k', v') # d) k v =
     (if k' = k then (k', v) # d else (k', v') # dict_set d k v)"

section \<open>Paginated fetches\<close>

text \<open>
  The three \<^verbatim>\<open>while True\<close> loops of \<^verbatim>\<open>fetch_property_map\<close>,
  \<^verbatim>\<open>fetch_reservations\<close> and \<^verbatim>\<open>fetch_tasks\<close> have one shape: request page
  \<open>page\<close> with \<open>limit\<close>; on a status other than 200 stop; otherwise absorb the results
  into the accumulator, stop if the page is shorter than \<open>limit\<close>, else go on with
  \<open>page + 1\<close>. The loop need not end (a source may return full pages for ever), so it is a
  partial function: \<open>None\<close> is a run that never returns. Next to the accumulator the model
  counts the requests issued.
\<close>

partial_function (option) page_loop ::
  "(nat \<Rightarrow> nat \<Rightarrow> 'r list option) \<Rightarrow> nat \<Rightarrow> ('a \<Rightarrow> 'r list \<Rightarrow> 'a) \<Rightarrow> nat \<Rightarrow> 'a \<Rightarrow> nat
     \<Rightarrow> ('a \<times> nat) option" where
  "page_loop get limit absorb page acc requests =
     (case get limit page of
        None \<Rightarrow> Some (acc, Suc requests)
      | Some results \<Rightarrow>
          if length results < limit then Some (absorb acc results, Suc requests)
          else page_loop get limit absorb (Suc page) (absorb acc results) (Suc requests))"

text \<open>\<^verbatim>\<open>fetch_property_map\<close>: the body of \<^verbatim>\<open>for prop in results\<close>.\<close>

fun add_properties :: "(int option \<times> prop_info) list \<Rightarrow> property list \<Rightarrow> (int option \<times> prop_info) list" where
  "add_properties property_map [] = property_map"
| "add_properties property_map (prop # props) =
     add_properties
       (if p_status prop = Some ''active''
        then dict_set property_map (p_id prop) \<lparr>pi_name = or_default (p_name prop) ''Unnamed Property''\<rparr>
        else property_map) props"

definition fetch_property_map_run :: "source \<Rightarrow> ((int option \<times> prop_info) list \<times> nat) option" where
  "fetch_property_map_run src = page_loop (get_property src) 100 add_properties 1 [] 0"

definition fetch_property_map :: "source \<Rightarrow> (int option \<times> prop_info) list option" where
  "fetch_property_map src = map_option fst (fetch_property_map_run src)"

definition fetch_reservations_run :: "string \<Rightarrow> source \<Rightarrow> bool \<Rightarrow> (reservation list \<times> nat) option" where
  "fetch_reservations_run date src checkin =
     page_loop (get_reservation src checkin date) 100 (\<lambda>reservations results. reservations @ results) 1 [] 0"

definition fetch_reservations :: "string \<Rightarrow> source \<Rightarrow> bool \<Rightarrow> reservation list option" where
  "fetch_reservations date src checkin = map_option fst (fetch_reservations_run date src checkin)"

definition housekeeping_tasks :: "task list \<Rightarrow> task list" where
  "housekeeping_tasks results = filter (\<lambda>t. type_department t = Some ''housekeeping'') results"

definition fetch_tasks_run :: "int option \<Rightarrow> string \<Rightarrow> source \<Rightarrow> (task list \<times> nat) option" where
  "fetch_tasks_run home_id date src =
     page_loop (get_task src home_id date) 100
       (\<lambda>all_tasks results. all_tasks @ housekeeping_tasks results) 1 [] 0"

definition fetch_tasks :: "int option \<Rightarrow> string \<Rightarrow> source \<Rightarrow> task list option" where
  "fetch_tasks home_id date src = map_option fst (fetch_tasks_run home_id date src)"

section \<open>The cleaning status of a check-in\<close>

text \<open>
  Step 1 of \<^verbatim>\<open>get_checkin_cleaning_status\<close>: the \<^verbatim>\<open>while url\<close> loop. The next page
  number comes from the response (\<^verbatim>\<open>page\<close>, default 1), and the loop stops when that is
  at least \<^verbatim>\<open>total_pages\<close> (default 1) or on a status other than 200.
\<close>

partial_function (option) window_loop ::
  "(int \<Rightarrow> task_page option) \<Rightarrow> int \<Rightarrow> task list \<Rightarrow> task list option" where
  "window_loop get page all_tasks =
     (case get page of
        None \<Rightarrow> Some all_tasks
      | Some data \<Rightarrow>
          if (case tp_page data of None \<Rightarrow> 1 | Some p \<Rightarrow> p)
               \<ge> (case tp_total_pages data of None \<Rightarrow> 1 | Some n \<Rightarrow> n)
          then Some (all_tasks @ tp_results data)
          else window_loop get ((case tp_page data of None \<Rightarrow> 1 | Some p \<Rightarrow> p) + 1)
                 (all_tasks @ tp_results data))"

text \<open>
  Step 2: one detail request per task. A task whose \<^verbatim>\<open>id\<close> is absent or 0 is skipped
  without a request; a task whose detail request fails is skipped.
\<close>

fun detail_loop :: "(int \<Rightarrow> task option) \<Rightarrow> task list \<Rightarrow> task list \<Rightarrow> task list" where
  "detail_loop get [] detailed_tasks = detailed_tasks"
| "detail_loop get (t # ts) detailed_tasks =
     (case t_id t of
        None \<Rightarrow> detail_loop get ts detailed_tasks
      | Some task_id \<Rightarrow>
          if task_id = 0 then detail_loop get ts detailed_tasks
          else (case get task_id of
                  None \<Rightarrow> detail_loop get ts detailed_tasks
                | Some d \<Rightarrow> detail_loop get ts (detailed_tasks @ [d])))"

text \<open>
  \<^verbatim>\<open>completed_tasks.sort(key=lambda t: t.get("finished_at"), reverse=True)\<close>. Python's sort
  is stable, and with \<^verbatim>\<open>reverse=True\<close> it reverses the list, sorts it ascending and
  reverses the result, so records with equal keys keep their order. Comparing a \<^verbatim>\<open>None\<close>
  key raises TypeError; a list of fewer than two records is not compared at all.
\<close>

definition finished_key :: "task \<Rightarrow> string" where
  "finished_key t = (case finished_at t of None \<Rightarrow> [] | Some s \<Rightarrow> s)"

definition sort_finished_desc :: "task list \<Rightarrow> py_error + task list" where
  "sort_finished_desc ts =
     (if 2 \<le> length ts \<and> (\<exists>t \<in> set ts. finished_at t = None) then Inl TypeError
      else Inr (rev (sort_key finished_key (rev ts))))"

definition task_label :: "task \<Rightarrow> string" where
  "task_label t = or_default (t_type t) (or_default (t_name t) ''Unnamed Task'')"

text \<open>Lines 179 to 185: the verdict built from \<^verbatim>\<open>last_task\<close>.\<close>

definition ready_verdict :: "task \<Rightarrow> string" where
  "ready_verdict last_task =
     ''Ready - '' @ task_label last_task @ '' - Cleaned by ''
       @ (case assignments last_task of
            [] \<Rightarrow> ''Unknown cleaner''
          | a # _ \<Rightarrow> or_default (a_name a) ''Unknown cleaner'')
       @ '' - ''
       @ (case finished_at last_task of
            None \<Rightarrow> ''Unknown date''
          | Some s \<Rightarrow> if s \<noteq> [] then take_chars 10 s else ''Unknown date'')"

text \<open>Step 3, from \<^verbatim>\<open>if not detailed_tasks\<close> to the return.\<close>

definition status_of_details :: "task list \<Rightarrow> py_error + string" where
  "status_of_details detailed_tasks =
     (if detailed_tasks = [] then Inr ''Dirty''
      else if filter (\<lambda>t. truthy (finished_at t)) detailed_tasks = [] then Inr ''Dirty''
      else (case sort_finished_desc (filter (\<lambda>t. truthy (finished_at t)) detailed_tasks) of
              Inl e \<Rightarrow> Inl e
            | Inr [] \<Rightarrow> Inl IndexError
            | Inr (last_task # _) \<Rightarrow> Inr (ready_verdict last_task)))"

definition fetch_window :: "source \<Rightarrow> int option \<Rightarrow> string \<Rightarrow> string \<Rightarrow> task list option" where
  "fetch_window src prop_id last_checkout_date today =
     window_loop (get_task_window src prop_id last_checkout_date today) 1 []"

text \<open>
  The whole function. \<open>None\<close>: the pagination never ends; \<open>Some (Inl e)\<close>: an exception;
  \<open>Some (Inr s)\<close>: the string returned. \<open>today\<close> is \<^verbatim>\<open>datetime.now()\<close> formatted.
\<close>

definition get_checkin_cleaning_status ::
  "int option \<Rightarrow> source \<Rightarrow> string \<Rightarrow> string \<Rightarrow> (py_error + string) option" where
  "get_checkin_cleaning_status prop_id src last_checkout_date today =
     (case fetch_window src prop_id last_checkout_date today of
        None \<Rightarrow> None
      | Some all_tasks \<Rightarrow>
          if all_tasks = [] then Some (Inr ''Dirty'')
          else Some (status_of_details (detail_loop (get_task_detail src) all_tasks [])))"

section \<open>Yesterday's summary\<close>

text \<open>\<^verbatim>\<open>fetch_yesterday_cleanings\<close>, innermost loop first. Each loop passes \<open>output\<close> on.\<close>

fun yesterday_assignment_loop ::
  "string \<Rightarrow> string \<Rightarrow> task \<Rightarrow> assignment list \<Rightarrow> string list \<Rightarrow> string list" where
  "yesterday_assignment_loop prop_name task_name task [] output = output"
| "yesterday_assignment_loop prop_name task_name task (assignment # rest) output =
     yesterday_assignment_loop prop_name task_name task rest
       (output @ [''- '' @ prop_name @ '' - '' @ task_name @ '' - ''
                    @ or_default (a_name assignment) ''Unknown'' @ '' - ''
                    @ (if type_task_user_status assignment = Some ''completed'' \<or> truthy (finished_at task)
                       then ''Completed'' else ''Not completed'')])"

fun yesterday_task_loop :: "string \<Rightarrow> task list \<Rightarrow> string list \<Rightarrow> string list" where
  "yesterday_task_loop prop_name [] output = output"
| "yesterday_task_loop prop_name (task # rest) output =
     yesterday_task_loop prop_name rest
       (if type_department task \<noteq> Some ''housekeeping'' then output
        else if assignments task = [] then output
        else yesterday_assignment_loop prop_name (task_label task) task (assignments task) output)"

fun yesterday_property_loop ::
  "source \<Rightarrow> string \<Rightarrow> (int option \<times> prop_info) list \<Rightarrow> string list \<Rightarrow> string list option" where
  "yesterday_property_loop src yesterday [] output = Some output"
| "yesterday_property_loop src yesterday ((prop_id, prop_info) # rest) output =
     (case fetch_tasks prop_id yesterday src of
        None \<Rightarrow> None
      | Some tasks \<Rightarrow>
          yesterday_property_loop src yesterday rest
            (if tasks = [] then output else yesterday_task_loop (pi_name prop_info) tasks output))"

definition yesterday_header :: "string \<Rightarrow> string" where
  "yesterday_header yesterday = nl @ ''Yesterday'' @ rsquo @ ''s Cleaning Summary ('' @ yesterday @ '')''"

text \<open>\<open>yesterday\<close> is the date the function computes from the clock.\<close>

definition fetch_yesterday_cleanings :: "source \<Rightarrow> string \<Rightarrow> string option" where
  "fetch_yesterday_cleanings src yesterday =
     (case fetch_property_map src of
        None \<Rightarrow> None
      | Some property_map \<Rightarrow>
          (case yesterday_property_loop src yesterday property_map [yesterday_header yesterday] of
             None \<Rightarrow> None
           | Some output \<Rightarrow> Some (join_lines output)))"

section \<open>The report of today\<close>

subsection \<open>Check-ins\<close>

text \<open>
  Lines 240 to 245: the last checkout date of a property among today's check-outs, or the date
  90 days ago (\<open>fallback\<close>) when it has none.
\<close>

definition last_checkout :: "int option \<Rightarrow> reservation list \<Rightarrow> string \<Rightarrow> string" where
  "last_checkout prop_id checkouts fallback =
     (case filter (\<lambda>c. property_id c = prop_id) checkouts of
        [] \<Rightarrow> fallback
      | c # cs \<Rightarrow> fold (\<lambda>d m. if m < d then d else m) (map checkout_date cs) (checkout_date c))"

text \<open>
  The loop \<^verbatim>\<open>for res in checkins\<close>. The source appends the line
  \<^verbatim>\<open>f"- {prop_name} - {prop_status}"\<close>; the model appends the pair of the two and
  \<open>checkin_line\<close> renders it when the section is put together, so that a line keeps the name
  of the property it was written for.
\<close>

fun checkin_loop ::
  "source \<Rightarrow> string \<Rightarrow> string \<Rightarrow> (int option \<times> prop_info) list \<Rightarrow> reservation list
     \<Rightarrow> string set \<Rightarrow> (string \<times> string) list
     \<Rightarrow> (py_error + string set \<times> (string \<times> string) list) option" where
  "checkin_loop src today fallback property_map [] printed output = Some (Inr (printed, output))"
| "checkin_loop src today fallback property_map (res # rest) printed output =
     (case map_of property_map (property_id res) of
        None \<Rightarrow> checkin_loop src today fallback property_map rest printed output
      | Some prop_info \<Rightarrow>
          if pi_name prop_info \<in> printed
          then checkin_loop src today fallback property_map rest printed output
          else (case fetch_reservations today src False of
                  None \<Rightarrow> None
                | Some checkouts \<Rightarrow>
                    (case get_checkin_cleaning_status (property_id res) src
                            (last_checkout (property_id res) checkouts fallback) today of
                       None \<Rightarrow> None
                     | Some (Inl e) \<Rightarrow> Some (Inl e)
                     | Some (Inr prop_status) \<Rightarrow>
                         checkin_loop src today fallback property_map rest
                           (insert (pi_name prop_info) printed)
                           (output @ [(pi_name prop_info, prop_status)]))))"

definition checkin_line :: "string \<times> string \<Rightarrow> string" where
  "checkin_line e = ''- '' @ fst e @ '' - '' @ snd e"

definition checkin_section ::
  "source \<Rightarrow> string \<Rightarrow> string \<Rightarrow> (int option \<times> prop_info) list \<Rightarrow> reservation list
     \<Rightarrow> (py_error + string list) option" where
  "checkin_section src today fallback property_map checkins =
     (if checkins \<noteq> []
      then (case checkin_loop src today fallback property_map checkins {} [] of
              None \<Rightarrow> None
            | Some (Inl e) \<Rightarrow> Some (Inl e)
            | Some (Inr (printed, output)) \<Rightarrow> Some (Inr (''Check-ins today:'' # map checkin_line output)))
      else Some (Inr [''Check-ins today:'', ''No check-ins today.'']))"

subsection \<open>The cleaning map\<close>

fun cleaning_assignment_loop ::
  "string \<Rightarrow> string \<Rightarrow> assignment list \<Rightarrow> string list \<Rightarrow> string list" where
  "cleaning_assignment_loop prop_name task_name [] cleanings = cleanings"
| "cleaning_assignment_loop prop_name task_name (assignment # rest) cleanings =
     cleaning_assignment_loop prop_name task_name rest
       (cleanings @ [prop_name @ '' - '' @ task_name @ '' - ''
                       @ or_default (a_name assignment) ''Not assigned'' @ '' - ''
                       @ or_default (type_task_user_status assignment) ''Unknown''])"

fun cleaning_task_loop :: "string \<Rightarrow> task list \<Rightarrow> string list \<Rightarrow> string list" where
  "cleaning_task_loop prop_name [] cleanings = cleanings"
| "cleaning_task_loop prop_name (task # rest) cleanings =
     cleaning_task_loop prop_name rest
       (if assignments task = []
        then cleanings @ [prop_name @ '' - '' @ task_label task @ '' - Not assigned'']
        else cleaning_assignment_loop prop_name (task_label task) (assignments task) cleanings)"

text \<open>
  The loop over \<^verbatim>\<open>property_map.items()\<close> of lines 258 to 274. The source stores an empty
  list under \<^verbatim>\<open>prop_name\<close> and appends to that list until the next property; the model
  stores the finished list in one step.
\<close>

fun cleaning_map_loop ::
  "source \<Rightarrow> string \<Rightarrow> (int option \<times> prop_info) list \<Rightarrow> (string \<times> string list) list
     \<Rightarrow> (string \<times> string list) list option" where
  "cleaning_map_loop src today [] cleaning_map = Some cleaning_map"
| "cleaning_map_loop src today ((prop_id, prop_info) # rest) cleaning_map =
     (case fetch_tasks prop_id today src of
        None \<Rightarrow> None
      | Some tasks \<Rightarrow>
          cleaning_map_loop src today rest
            (if tasks \<noteq> []
             then dict_set cleaning_map (pi_name prop_info) (cleaning_task_loop (pi_name prop_info) tasks [])
             else cleaning_map))"

subsection \<open>Check-outs and pending cleanings\<close>

fun checkout_loop ::
  "(int option \<times> prop_info) list \<Rightarrow> (string \<times> string list) list \<Rightarrow> reservation list
     \<Rightarrow> string set \<Rightarrow> string list \<Rightarrow> string set \<times> string list" where
  "checkout_loop property_map cleaning_map [] checkout_props output = (checkout_props, output)"
| "checkout_loop property_map cleaning_map (res # rest) checkout_props output =
     (case map_of property_map (property_id res) of
        None \<Rightarrow> checkout_loop property_map cleaning_map rest checkout_props output
      | Some prop_info \<Rightarrow>
          checkout_loop property_map cleaning_map rest (insert (pi_name prop_info) checkout_props)
            (case map_of cleaning_map (pi_name prop_info) of
               Some cleanings \<Rightarrow> output @ map (\<lambda>c. ''- '' @ c) cleanings
             | None \<Rightarrow> output @ [''- '' @ pi_name prop_info]))"

text \<open>Lines 276 to 291: the set of checked-out property names and the lines of the section.\<close>

definition checkout_section ::
  "(int option \<times> prop_info) list \<Rightarrow> (string \<times> string list) list \<Rightarrow> reservation list
     \<Rightarrow> string set \<times> string list" where
  "checkout_section property_map cleaning_map checkouts =
     (if checkouts \<noteq> []
      then checkout_loop property_map cleaning_map checkouts {} [nl @ ''Check-outs today:'']
      else ({}, [nl @ ''Check-outs today:'', ''No check-outs today.'']))"

fun pending_loop ::
  "(string \<times> string list) list \<Rightarrow> string set \<Rightarrow> string list \<Rightarrow> bool \<Rightarrow> string list \<times> bool" where
  "pending_loop [] checkout_props output has_pending = (output, has_pending)"
| "pending_loop ((prop_name, cleanings) # rest) checkout_props output has_pending =
     (if prop_name \<notin> checkout_props
      then pending_loop rest checkout_props (output @ cleanings) (has_pending \<or> cleanings \<noteq> [])
      else pending_loop rest checkout_props output has_pending)"

definition pending_section :: "(string \<times> string list) list \<Rightarrow> string set \<Rightarrow> string list" where
  "pending_section cleaning_map checkout_props =
     (case pending_loop cleaning_map checkout_props [nl @ ''Pending cleanings:''] False of
        (output, has_pending) \<Rightarrow>
          if \<not> has_pending then output @ [''No pending cleanings today.''] else output)"

subsection \<open>The script\<close>

definition today_header :: "string \<Rightarrow> string" where
  "today_header today = ''Today'' @ rsquo @ ''s Cleaning Summary ('' @ today @ '')'' @ nl"

text \<open>
  Lines 222 to 311, after the token is there: \<open>today\<close>, \<open>yesterday\<close> and \<open>fallback\<close>
  (90 days ago) are the dates the script computes from the clock. The result is
  \<^verbatim>\<open>combined_message\<close>, which the script prints and sends.
\<close>

definition main :: "source \<Rightarrow> string \<Rightarrow> string \<Rightarrow> string \<Rightarrow> (py_error + string) option" where
  "main src today yesterday fallback =
     (case fetch_property_map src of
        None \<Rightarrow> None
      | Some property_map \<Rightarrow>
     (case fetch_reservations today src True of
        None \<Rightarrow> None
      | Some checkins \<Rightarrow>
     (case checkin_section src today fallback property_map checkins of
        None \<Rightarrow> None
      | Some (Inl e) \<Rightarrow> Some (Inl e)
      | Some (Inr checkin_lines) \<Rightarrow>
     (case fetch_reservations today src False of
        None \<Rightarrow> None
      | Some checkouts \<Rightarrow>
     (case cleaning_map_loop src today property_map [] of
        None \<Rightarrow> None
      | Some cleaning_map \<Rightarrow>
     (case fetch_yesterday_cleanings src yesterday of
        None \<Rightarrow> None
      | Some yesterday_message \<Rightarrow>
          Some (Inr (join_lines
                  ([today_header today] @ checkin_lines
                     @ snd (checkout_section property_map cleaning_map checkouts)
                     @ pending_section cleaning_map
                         (fst (checkout_section property_map cleaning_map checkouts)))
                @ nl @ nl @ yesterday_message))))))))"

section \<open>Sources and records used as concrete inputs\<close>

text \<open>A source every request to which fails.\<close>

definition no_source :: source where
  "no_source = \<lparr>get_property = \<lambda>limit page. None, get_reservation = \<lambda>checkin date limit page. None,
     get_task = \<lambda>home_id date limit page. None, get_task_window = \<lambda>home_id from to page. None,
     get_task_detail = \<lambda>task_id. None\<rparr>"

text \<open>
  A well-behaved paginated endpoint holding \<open>records\<close>: page \<open>page\<close> (counted from 1) is
  the next \<open>limit\<close> records, and a page past the end is empty.
\<close>

definition paged :: "'r list \<Rightarrow> nat \<Rightarrow> nat \<Rightarrow> 'r list option" where
  "paged records limit page = Some (take limit (drop ((page - 1) * limit) records))"

text \<open>A source whose task listing for the status resolver is one page, with the given details.\<close>

definition one_page_source :: "task list \<Rightarrow> (int \<Rightarrow> task option) \<Rightarrow> source" where
  "one_page_source ts detail = no_source\<lparr>
     get_task_window := \<lambda>home_id from to page.
        if page = 1 then Some \<lparr>tp_results = ts, tp_total_pages = Some 1, tp_page = Some 1\<rparr> else None,
     get_task_detail := detail\<rparr>"

definition open_task :: task where
  "open_task = \<lparr>t_id = Some 7, type_department = Some ''housekeeping'', t_type = Some ''Departure clean'',
     t_name = None, finished_at = None, assignments = []\<rparr>"

definition done_task :: "string \<Rightarrow> string \<Rightarrow> string \<Rightarrow> task" where
  "done_task label cleaner fin = \<lparr>t_id = Some 7, type_department = Some ''housekeeping'',
     t_type = Some label, t_name = None, finished_at = Some fin,
     assignments = [\<lparr>a_name = Some cleaner, type_task_user_status = Some ''completed''\<rparr>]\<rparr>"

text \<open>A finished task whose only assignment carries an empty cleaner name.\<close>

definition nameless_task :: task where
  "nameless_task = \<lparr>t_id = Some 7, type_department = Some ''housekeeping'',
     t_type = Some ''Departure clean'', t_name = None, finished_at = Some ''2024-05-01T10:15:00Z'',
     assignments = [\<lparr>a_name = Some '''', type_task_user_status = Some ''completed''\<rparr>]\<rparr>"

definition a_reservation :: reservation where
  "a_reservation = \<lparr>property_id = Some 5, checkout_date = ''2024-05-02''\<rparr>"


definition active_prop :: property where
  "active_prop = \<lparr>p_id = Some 5, p_name = Some ''Casa Azul'', p_status = Some ''active''\<rparr>"

definition closed_prop :: property where
  "closed_prop = \<lparr>p_id = Some 6, p_name = Some ''Casa Roja'', p_status = Some ''inactive''\<rparr>"

text \<open>Three tasks of one day: two cleaners, nobody assigned, and one finished by a cleaner.\<close>

definition shared_task :: task where
  "shared_task = \<lparr>t_id = Some 11, type_department = Some ''housekeeping'', t_type = Some ''Deep clean'',
     t_name = None, finished_at = None,
     assignments = [\<lparr>a_name = Some ''Ana'', type_task_user_status = Some ''completed''\<rparr>,
                    \<lparr>a_name = Some ''Bo'', type_task_user_status = Some ''in_progress''\<rparr>]\<rparr>"

definition day_source :: source where
  "day_source = no_source\<lparr>get_property := paged [active_prop],
     get_task := \<lambda>home_id date. paged [shared_task, open_task, done_task ''Linen change'' ''Cy'' ''2024-05-01T10:15:00Z'']\<rparr>"

text \<open>Two active properties with the same display name, each with a task of its own.\<close>

definition twin_source :: source where
  "twin_source = no_source\<lparr>
     get_property := paged [active_prop, active_prop\<lparr>p_id := Some 8\<rparr>],
     get_task := \<lambda>home_id date.
        if home_id = Some 5 then paged [shared_task]
        else if home_id = Some 8 then paged [open_task] else paged []\<rparr>"

section \<open>Properties of the status resolver\<close>

lemma truthy_Some: "truthy v \<longleftrightarrow> (\<exists>s. v = Some s \<and> s \<noteq> [])"
  by (cases v) (simp_all add: truthy_def)



text \<open>
  Where the stable ascending sort puts its last element: it is the last of the records with
  the largest key.
\<close>

lemma last_insort_key:
  "last (insort_key f x ys) = (if \<forall>y \<in> set ys. f y < f x then x else last ys)"
  by (induction ys) (auto simp: not_less)

lemma last_sort_key:
  "xs \<noteq> [] \<Longrightarrow> \<exists>pre t post. xs = pre @ t # post \<and> last (sort_key f xs) = t
           \<and> (\<forall>x \<in> set pre. f x \<le> f t) \<and> (\<forall>x \<in> set post. f x < f t)"
proof (induction xs)
  case Nil
  then show ?case by simp
next
  case (Cons x xs)
  show ?case
  proof (cases "\<forall>y \<in> set xs. f y < f x")
    case True
    then have "last (sort_key f (x # xs)) = x"
      by (simp add: last_insort_key)
    with True have "x # xs = [] @ x # xs \<and> last (sort_key f (x # xs)) = x
           \<and> (\<forall>y \<in> set []. f y \<le> f x) \<and> (\<forall>y \<in> set xs. f y < f x)"
      by simp
    then show ?thesis by blast
  next
    case False
    then have ne: "xs \<noteq> []" by auto
    from Cons.IH [OF ne] obtain pre t post where
      xs: "xs = pre @ t # post" and t: "last (sort_key f xs) = t"
      and pre: "\<forall>y \<in> set pre. f y \<le> f t" and post: "\<forall>y \<in> set post. f y < f t"
      by blast
    from False obtain y where y: "y \<in> set xs" "f x \<le> f y" by (auto simp: not_less)
    have "f y \<le> f t" using y(1) xs pre post by auto
    with y have xt: "f x \<le> f t" by simp
    have "last (sort_key f (x # xs)) = t"
      using False t by (auto simp add: last_insort_key)
    with xs pre post xt have "x # xs = (x # pre) @ t # post \<and> last (sort_key f (x # xs)) = t
           \<and> (\<forall>y \<in> set (x # pre). f y \<le> f t) \<and> (\<forall>y \<in> set post. f y < f t)"
      by simp
    then show ?thesis by blast
  qed
qed

text \<open>So the head of the descending sort is the first of the records with the largest key.\<close>

lemma hd_sort_desc:
  assumes "c \<noteq> []"
  shows "\<exists>pre t post. c = pre @ t # post \<and> hd (rev (sort_key f (rev c))) = t
           \<and> (\<forall>x \<in> set pre. f x < f t) \<and> (\<forall>x \<in> set post. f x \<le> f t)"
proof -
  from assms have "rev c \<noteq> []" by simp
  from last_sort_key [OF this, of f] obtain pre t post where
    r: "rev c = pre @ t # post" and t: "last (sort_key f (rev c)) = t"
    and pre: "\<forall>x \<in> set pre. f x \<le> f t" and post: "\<forall>x \<in> set post. f x < f t"
    by blast
  from r have "rev (rev c) = rev (pre @ t # post)" by simp
  then have c: "c = rev post @ t # rev pre" by simp
  have "sort_key f (rev c) \<noteq> []" using assms by (metis length_sort length_0_conv rev_is_Nil_conv)
  then have "hd (rev (sort_key f (rev c))) = t" using t by (simp add: hd_rev)
  with c pre post show ?thesis by (metis set_rev)
qed

lemma filter_truthy_no_None:
  "\<not> (\<exists>t \<in> set (filter (\<lambda>t. truthy (finished_at t)) ds). finished_at t = None)"
  by (auto simp: truthy_Some)

lemma status_of_details_ready:
  assumes "\<exists>d \<in> set detailed. truthy (finished_at d)"
  shows "\<exists>pre t post. filter (\<lambda>t. truthy (finished_at t)) detailed = pre @ t # post
           \<and> (\<forall>x \<in> set pre. finished_key x < finished_key t)
           \<and> (\<forall>x \<in> set post. finished_key x \<le> finished_key t)
           \<and> status_of_details detailed = Inr (ready_verdict t)"
proof -
  let ?c = "filter (\<lambda>t. truthy (finished_at t)) detailed"
  from assms have ne: "?c \<noteq> []" by (auto simp: filter_empty_conv)
  then have dne: "detailed \<noteq> []" by auto
  from hd_sort_desc [OF ne, of finished_key] obtain pre t post where
    c: "?c = pre @ t # post" and t: "hd (rev (sort_key finished_key (rev ?c))) = t"
    and pre: "\<forall>x \<in> set pre. finished_key x < finished_key t"
    and post: "\<forall>x \<in> set post. finished_key x \<le> finished_key t"
    by blast
  have srt: "sort_finished_desc ?c = Inr (rev (sort_key finished_key (rev ?c)))"
    unfolding sort_finished_desc_def using filter_truthy_no_None [of detailed] by simp
  have "rev (sort_key finished_key (rev ?c)) \<noteq> []"
    using ne by (metis length_sort length_0_conv rev_is_Nil_conv)
  then obtain rest where "rev (sort_key finished_key (rev ?c)) = t # rest"
    using t by (cases "rev (sort_key finished_key (rev ?c))") auto
  with srt ne dne have "status_of_details detailed = Inr (ready_verdict t)"
    by (simp add: status_of_details_def)
  with c pre post show ?thesis by blast
qed

lemma status_of_details_dirty:
  "\<forall>d \<in> set detailed. \<not> truthy (finished_at d) \<Longrightarrow> status_of_details detailed = Inr ''Dirty''"
  by (simp add: status_of_details_def filter_empty_conv)

lemma status_of_details_total: "\<exists>s. status_of_details detailed = Inr s"
proof (cases "\<exists>d \<in> set detailed. truthy (finished_at d)")
  case True
  from status_of_details_ready [OF True] show ?thesis by blast
next
  case False
  then show ?thesis by (simp add: status_of_details_dirty)
qed

lemma status_returns:
  assumes "fetch_window src prop_id last_checkout_date today = Some all_tasks"
  shows "\<exists>s. get_checkin_cleaning_status prop_id src last_checkout_date today = Some (Inr s)"
  using assms status_of_details_total [of "detail_loop (get_task_detail src) all_tasks []"]
  by (auto simp: get_checkin_cleaning_status_def)

lemma fetch_window_one_page:
  "fetch_window (one_page_source ts detail) prop_id d1 d2 = Some ts"
  by (simp add: fetch_window_def one_page_source_def window_loop.simps)

lemma take_chars_date: "take_chars 10 ''2024-05-01T10:15:00Z'' = ''2024-05-01''"
  by (simp add: is_continuation_def)



text \<open>
  Claim C2, as stated, takes the cleaner name to be the first assignment's name whenever the
  task has assignments. Counterexample: the completed task has one assignment whose name is the
  empty string; the verdict names \<open>Unknown cleaner\<close>, not the empty name.
\<close>

theorem cleaner_name_counterexample:
  "assignments nameless_task \<noteq> []
   \<and> a_name (hd (assignments nameless_task)) = Some ''''
   \<and> get_checkin_cleaning_status (Some 3)
       (one_page_source [nameless_task] (\<lambda>i. if i = 7 then Some nameless_task else None))
       ''2024-04-28'' ''2024-05-02''
     = Some (Inr ''Ready - Departure clean - Cleaned by Unknown cleaner - 2024-05-01'')
   \<and> get_checkin_cleaning_status (Some 3)
       (one_page_source [nameless_task] (\<lambda>i. if i = 7 then Some nameless_task else None))
       ''2024-04-28'' ''2024-05-02''
     \<noteq> Some (Inr (''Ready - Departure clean - Cleaned by '' @ '''' @ '' - 2024-05-01''))"
proof -
  let ?src = "one_page_source [nameless_task] (\<lambda>i. if i = 7 then Some nameless_task else None)"
  have d: "detail_loop (get_task_detail ?src) [nameless_task] [] = [nameless_task]"
    by (simp add: one_page_source_def nameless_task_def)
  have s: "status_of_details [nameless_task]
             = Inr ''Ready - Departure clean - Cleaned by Unknown cleaner - 2024-05-01''"
    by (simp add: status_of_details_def sort_finished_desc_def truthy_def nameless_task_def
        ready_verdict_def task_label_def or_default_def is_continuation_def)
  have "get_checkin_cleaning_status (Some 3) ?src ''2024-04-28'' ''2024-05-02''
          = Some (Inr ''Ready - Departure clean - Cleaned by Unknown cleaner - 2024-05-01'')"
    by (simp add: get_checkin_cleaning_status_def fetch_window_one_page d s del: detail_loop.simps)
  moreover have "assignments nameless_task \<noteq> [] \<and> a_name (hd (assignments nameless_task)) = Some ''''"
    by (simp add: nameless_task_def)
  ultimately show ?thesis by simp
qed

text \<open>
  Claim C2, amended. Whenever at least one fetched detail record has a non-empty
  \<open>finished_at\<close>, the function returns \<open>Ready - label - Cleaned by cleaner - date\<close> built from
  a completed record \<open>last_task\<close> whose \<open>finished_at\<close> is lexicographically largest among the
  fetched detail records. The label is its type, else its name, else \<open>Unnamed Task\<close>; the
  cleaner is the first assignment's name if the task has assignments and that name is present and
  non-empty, else \<open>Unknown cleaner\<close>; the date is the first 10 characters of \<open>finished_at\<close>.
\<close>

theorem ready_verdict_of_latest:
  assumes "fetch_window src prop_id last_checkout_date today = Some all_tasks"
    and "\<exists>d \<in> set (detail_loop (get_task_detail src) all_tasks []). truthy (finished_at d)"
  shows "\<exists>last_task fin.
           last_task \<in> set (detail_loop (get_task_detail src) all_tasks [])
         \<and> finished_at last_task = Some fin \<and> fin \<noteq> []
         \<and> (\<forall>d \<in> set (detail_loop (get_task_detail src) all_tasks []).
               \<forall>s. finished_at d = Some s \<longrightarrow> s \<le> fin)
         \<and> get_checkin_cleaning_status prop_id src last_checkout_date today =
             Some (Inr (''Ready - ''
               @ (if truthy (t_type last_task) then the (t_type last_task)
                  else if truthy (t_name last_task) then the (t_name last_task)
                  else ''Unnamed Task'')
               @ '' - Cleaned by ''
               @ (if assignments last_task \<noteq> [] \<and> truthy (a_name (hd (assignments last_task)))
                  then the (a_name (hd (assignments last_task)))
                  else ''Unknown cleaner'')
               @ '' - '' @ take_chars 10 fin))"
proof -
  let ?ds = "detail_loop (get_task_detail src) all_tasks []"
  let ?c = "filter (\<lambda>t. truthy (finished_at t)) ?ds"
  from assms(2) have "all_tasks \<noteq> []" by auto
  with assms(1) have g: "get_checkin_cleaning_status prop_id src last_checkout_date today =
      Some (status_of_details ?ds)"
    by (simp add: get_checkin_cleaning_status_def)
  from status_of_details_ready [OF assms(2)] obtain pre t post where
    c: "?c = pre @ t # post"
    and pre: "\<forall>x \<in> set pre. finished_key x < finished_key t"
    and post: "\<forall>x \<in> set post. finished_key x \<le> finished_key t"
    and st: "status_of_details ?ds = Inr (ready_verdict t)"
    by blast
  have "t \<in> set ?c" using c by simp
  then have tin: "t \<in> set ?ds" and tt: "truthy (finished_at t)" by simp_all
  from tt obtain fin where fin: "finished_at t = Some fin" "fin \<noteq> []"
    by (auto simp: truthy_Some)
  have mx: "\<forall>d \<in> set ?ds. \<forall>s. finished_at d = Some s \<longrightarrow> s \<le> fin"
  proof (intro ballI allI impI)
    fix d s assume d: "d \<in> set ?ds" and s: "finished_at d = Some s"
    show "s \<le> fin"
    proof (cases "s = []")
      case True
      then show ?thesis by simp
    next
      case False
      with d s have "d \<in> set ?c" by (simp add: truthy_def)
      with c pre post have "finished_key d \<le> finished_key t" by auto
      with s fin show ?thesis by (simp add: finished_key_def)
    qed
  qed
  have lab: "task_label t = (if truthy (t_type t) then the (t_type t)
                  else if truthy (t_name t) then the (t_name t) else ''Unnamed Task'')"
    by (auto simp: task_label_def or_default_def truthy_def split: option.splits)
  have cl: "(case assignments t of [] \<Rightarrow> ''Unknown cleaner''
             | a # _ \<Rightarrow> or_default (a_name a) ''Unknown cleaner'')
            = (if assignments t \<noteq> [] \<and> truthy (a_name (hd (assignments t)))
                  then the (a_name (hd (assignments t))) else ''Unknown cleaner'')"
    by (auto simp: or_default_def truthy_def split: option.splits list.splits)
  have "ready_verdict t = ''Ready - ''
               @ (if truthy (t_type t) then the (t_type t)
                  else if truthy (t_name t) then the (t_name t)
                  else ''Unnamed Task'')
               @ '' - Cleaned by ''
               @ (if assignments t \<noteq> [] \<and> truthy (a_name (hd (assignments t)))
                  then the (a_name (hd (assignments t)))
                  else ''Unknown cleaner'')
               @ '' - '' @ take_chars 10 fin"
    unfolding ready_verdict_def lab cl using fin by simp
  with g st tin fin mx show ?thesis by metis
qed

text \<open>
  Witness for C2: a window of two finished tasks; the verdict is built from the one finished
  later.
\<close>

theorem ready_verdict_of_latest_witness:
  "fetch_window (one_page_source
       [open_task\<lparr>t_id := Some 1\<rparr>, open_task\<lparr>t_id := Some 2\<rparr>]
       (\<lambda>i. if i = 1 then Some (done_task ''Deep clean'' ''Ana'' ''2024-04-30T09:00:00Z'')
            else if i = 2 then Some (done_task ''Linen change'' ''Bo'' ''2024-05-01T10:15:00Z'')
            else None)) (Some 3) ''2024-04-28'' ''2024-05-02''
     = Some [open_task\<lparr>t_id := Some 1\<rparr>, open_task\<lparr>t_id := Some 2\<rparr>]
   \<and> get_checkin_cleaning_status (Some 3) (one_page_source
       [open_task\<lparr>t_id := Some 1\<rparr>, open_task\<lparr>t_id := Some 2\<rparr>]
       (\<lambda>i. if i = 1 then Some (done_task ''Deep clean'' ''Ana'' ''2024-04-30T09:00:00Z'')
            else if i = 2 then Some (done_task ''Linen change'' ''Bo'' ''2024-05-01T10:15:00Z'')
            else None)) ''2024-04-28'' ''2024-05-02''
     = Some (Inr ''Ready - Linen change - Cleaned by Bo - 2024-05-01'')"
proof -
  let ?det = "\<lambda>i::int. if i = 1 then Some (done_task ''Deep clean'' ''Ana'' ''2024-04-30T09:00:00Z'')
            else if i = 2 then Some (done_task ''Linen change'' ''Bo'' ''2024-05-01T10:15:00Z'')
            else None"
  let ?ts = "[open_task\<lparr>t_id := Some 1\<rparr>, open_task\<lparr>t_id := Some 2\<rparr>]"
  let ?src = "one_page_source ?ts ?det"
  have w: "fetch_window ?src (Some 3) ''2024-04-28'' ''2024-05-02'' = Some ?ts"
    by (rule fetch_window_one_page)
  have d: "detail_loop (get_task_detail ?src) ?ts []
             = [done_task ''Deep clean'' ''Ana'' ''2024-04-30T09:00:00Z'',
                done_task ''Linen change'' ''Bo'' ''2024-05-01T10:15:00Z'']"
    by (simp add: one_page_source_def open_task_def)
  have e: "\<exists>d \<in> set (detail_loop (get_task_detail ?src) ?ts []). truthy (finished_at d)"
    unfolding d by (simp add: done_task_def truthy_def)
  from ready_verdict_of_latest [OF w e] obtain last_task fin where
    m: "last_task \<in> set (detail_loop (get_task_detail ?src) ?ts [])"
    and f: "finished_at last_task = Some fin"
    and mx: "\<forall>d \<in> set (detail_loop (get_task_detail ?src) ?ts []). \<forall>s. finished_at d = Some s \<longrightarrow> s \<le> fin"
    and g: "get_checkin_cleaning_status (Some 3) ?src ''2024-04-28'' ''2024-05-02'' =
             Some (Inr (''Ready - ''
               @ (if truthy (t_type last_task) then the (t_type last_task)
                  else if truthy (t_name last_task) then the (t_name last_task)
                  else ''Unnamed Task'')
               @ '' - Cleaned by ''
               @ (if assignments last_task \<noteq> [] \<and> truthy (a_name (hd (assignments last_task)))
                  then the (a_name (hd (assignments last_task)))
                  else ''Unknown cleaner'')
               @ '' - '' @ take_chars 10 fin))"
    by blast
  from mx have "''2024-05-01T10:15:00Z'' \<le> fin"
    unfolding d by (simp add: done_task_def)
  moreover from m f have "fin = ''2024-04-30T09:00:00Z'' \<or> fin = ''2024-05-01T10:15:00Z''"
    unfolding d by (auto simp: done_task_def)
  ultimately have fin: "fin = ''2024-05-01T10:15:00Z''"
    by auto
  with m f have lt: "last_task = done_task ''Linen change'' ''Bo'' ''2024-05-01T10:15:00Z''"
    unfolding d by (auto simp: done_task_def)
  have "get_checkin_cleaning_status (Some 3) ?src ''2024-04-28'' ''2024-05-02''
          = Some (Inr ''Ready - Linen change - Cleaned by Bo - 2024-05-01'')"
    unfolding g lt fin by (simp add: done_task_def truthy_def is_continuation_def)
  with w show ?thesis by simp
qed

text \<open>
  Claim C6, as stated, makes the verdict the same for every permutation of the detail records.
  Counterexample: two completed records with the same \<open>finished_at\<close> and different labels and
  cleaners. The sort is stable, so the record gathered first wins, and swapping the two changes
  the verdict.
\<close>

theorem verdict_order_counterexample:
  "mset [done_task ''Linen change'' ''Bo'' ''2024-05-01T10:15:00Z'',
         done_task ''Deep clean'' ''Ana'' ''2024-05-01T10:15:00Z'']
     = mset [done_task ''Deep clean'' ''Ana'' ''2024-05-01T10:15:00Z'',
             done_task ''Linen change'' ''Bo'' ''2024-05-01T10:15:00Z'']
   \<and> status_of_details [done_task ''Deep clean'' ''Ana'' ''2024-05-01T10:15:00Z'',
                         done_task ''Linen change'' ''Bo'' ''2024-05-01T10:15:00Z'']
       = Inr ''Ready - Deep clean - Cleaned by Ana - 2024-05-01''
   \<and> status_of_details [done_task ''Linen change'' ''Bo'' ''2024-05-01T10:15:00Z'',
                         done_task ''Deep clean'' ''Ana'' ''2024-05-01T10:15:00Z'']
       = Inr ''Ready - Linen change - Cleaned by Bo - 2024-05-01''"
  by (simp add: status_of_details_def sort_finished_desc_def done_task_def truthy_def finished_key_def
      ready_verdict_def task_label_def or_default_def is_continuation_def)

text \<open>
  Claim C6, amended. The verdict is the same for every permutation of the detail records
  provided the completed records that share the largest \<open>finished_at\<close> all give the same
  verdict text (in particular when one record only has the largest \<open>finished_at\<close>).
\<close>

theorem verdict_order_independent:
  assumes "mset ys = mset xs"
    and "\<forall>t \<in> set xs. \<forall>u \<in> set xs.
           truthy (finished_at t) \<and> finished_at u = finished_at t
           \<and> (\<forall>d \<in> set xs. truthy (finished_at d) \<longrightarrow> finished_key d \<le> finished_key t)
           \<longrightarrow> ready_verdict u = ready_verdict t"
  shows "status_of_details ys = status_of_details xs"
proof (cases "\<exists>d \<in> set xs. truthy (finished_at d)")
  case False
  moreover from assms(1) have s: "set ys = set xs" by (rule mset_eq_setD)
  ultimately show ?thesis by (simp add: status_of_details_dirty)
next
  case True
  from assms(1) have s: "set ys = set xs" by (rule mset_eq_setD)
  with True have True': "\<exists>d \<in> set ys. truthy (finished_at d)" by simp
  from status_of_details_ready [OF True] obtain pre t post where
    c: "filter (\<lambda>t. truthy (finished_at t)) xs = pre @ t # post"
    and pre: "\<forall>x \<in> set pre. finished_key x < finished_key t"
    and post: "\<forall>x \<in> set post. finished_key x \<le> finished_key t"
    and st: "status_of_details xs = Inr (ready_verdict t)"
    by blast
  from status_of_details_ready [OF True'] obtain pre' u post' where
    c': "filter (\<lambda>t. truthy (finished_at t)) ys = pre' @ u # post'"
    and pre': "\<forall>x \<in> set pre'. finished_key x < finished_key u"
    and post': "\<forall>x \<in> set post'. finished_key x \<le> finished_key u"
    and su: "status_of_details ys = Inr (ready_verdict u)"
    by blast
  have "t \<in> set (filter (\<lambda>t. truthy (finished_at t)) xs)" using c by simp
  then have t: "t \<in> set xs" "truthy (finished_at t)" by simp_all
  have "u \<in> set (filter (\<lambda>t. truthy (finished_at t)) ys)" using c' by simp
  then have u: "u \<in> set xs" "truthy (finished_at u)" using s by simp_all
  have tmax: "\<forall>d \<in> set xs. truthy (finished_at d) \<longrightarrow> finished_key d \<le> finished_key t"
  proof (intro ballI impI)
    fix d assume "d \<in> set xs" "truthy (finished_at d)"
    then have "d \<in> set (pre @ t # post)" using c [symmetric] by simp
    with pre post show "finished_key d \<le> finished_key t" by auto
  qed
  have umax: "\<forall>d \<in> set xs. truthy (finished_at d) \<longrightarrow> finished_key d \<le> finished_key u"
  proof (intro ballI impI)
    fix d assume "d \<in> set xs" "truthy (finished_at d)"
    then have "d \<in> set (pre' @ u # post')" using c' [symmetric] s by simp
    with pre' post' show "finished_key d \<le> finished_key u" by auto
  qed
  from tmax u have "finished_key u \<le> finished_key t" by simp
  moreover from umax t have "finished_key t \<le> finished_key u" by simp
  ultimately have "finished_key u = finished_key t" by simp
  with t(2) u(2) have "finished_at u = finished_at t"
    by (auto simp: finished_key_def truthy_Some)
  with assms(2) t u(1) tmax have "ready_verdict u = ready_verdict t" by blast
  with st su show ?thesis by simp
qed

text \<open>Witness for C6: two records finished at different times, in both orders.\<close>

theorem verdict_order_independent_witness:
  "status_of_details [done_task ''Linen change'' ''Bo'' ''2024-05-01T10:15:00Z'',
                      done_task ''Deep clean'' ''Ana'' ''2024-04-30T09:00:00Z'']
   = status_of_details [done_task ''Deep clean'' ''Ana'' ''2024-04-30T09:00:00Z'',
                        done_task ''Linen change'' ''Bo'' ''2024-05-01T10:15:00Z'']"
proof -
  let ?xs = "[done_task ''Deep clean'' ''Ana'' ''2024-04-30T09:00:00Z'',
              done_task ''Linen change'' ''Bo'' ''2024-05-01T10:15:00Z'']"
  let ?ys = "[done_task ''Linen change'' ''Bo'' ''2024-05-01T10:15:00Z'',
              done_task ''Deep clean'' ''Ana'' ''2024-04-30T09:00:00Z'']"
  have p: "mset ?ys = mset ?xs" by simp
  have h: "\<forall>t \<in> set ?xs. \<forall>u \<in> set ?xs.
           truthy (finished_at t) \<and> finished_at u = finished_at t
           \<and> (\<forall>d \<in> set ?xs. truthy (finished_at d) \<longrightarrow> finished_key d \<le> finished_key t)
           \<longrightarrow> ready_verdict u = ready_verdict t"
    by (simp add: done_task_def)
  from verdict_order_independent [OF p h] show ?thesis .
qed

section \<open>Properties of the paginated fetches\<close>

text \<open>On a well-behaved endpoint the loop ends after one request more than the full pages.\<close>

lemma page_loop_paged_aux:
  assumes lim: "0 < limit"
    and hom: "\<And>a xs ys. absorb (absorb a xs) ys = absorb a (xs @ ys)"
  shows "length records - k * limit = n \<Longrightarrow>
    page_loop (paged records) limit absorb (Suc k) acc requests =
      Some (absorb acc (drop (k * limit) records),
            requests + length (drop (k * limit) records) div limit + 1)"
proof (induction n arbitrary: k acc requests rule: less_induct)
  case (less n)
  let ?rem = "drop (k * limit) records"
  have g: "paged records limit (Suc k) = Some (take limit ?rem)" by (simp add: paged_def)
  show ?case
  proof (cases "length ?rem < limit")
    case True
    then have "take limit ?rem = ?rem" by simp
    moreover have "length ?rem div limit = 0" using True by simp
    ultimately show ?thesis using True g
      by (subst page_loop.simps) simp
  next
    case False
    then have ge: "limit \<le> length ?rem" by simp
    have nxt: "drop (Suc k * limit) records = drop limit ?rem"
      by (simp add: add.commute)
    have sm: "length records - Suc k * limit < n" using ge lim less.prems by simp
    have "page_loop (paged records) limit absorb (Suc (Suc k)) (absorb acc (take limit ?rem)) (Suc requests) =
      Some (absorb (absorb acc (take limit ?rem)) (drop (Suc k * limit) records),
            Suc requests + length (drop (Suc k * limit) records) div limit + 1)"
      by (rule less.IH [OF sm refl])
    moreover have "absorb (absorb acc (take limit ?rem)) (drop limit ?rem) = absorb acc ?rem"
      unfolding hom by (simp only: append_take_drop_id)
    ultimately have ih: "page_loop (paged records) limit absorb (Suc (Suc k)) (absorb acc (take limit ?rem)) (Suc requests) =
      Some (absorb acc ?rem, Suc requests + length (drop limit ?rem) div limit + 1)"
      by (simp only: nxt)
    have "length ?rem div limit = Suc ((length ?rem - limit) div limit)"
      using ge lim by (rule_tac le_div_geq)
    moreover have "length (drop limit ?rem) = length ?rem - limit"
      by (rule length_drop)
    ultimately have cnt: "Suc requests + length (drop limit ?rem) div limit + 1 = requests + length ?rem div limit + 1"
      by (simp only: add_Suc add_Suc_right)
    have "page_loop (paged records) limit absorb (Suc k) acc requests =
          page_loop (paged records) limit absorb (Suc (Suc k)) (absorb acc (take limit ?rem)) (Suc requests)"
      using g False by (subst page_loop.simps) simp
    then show ?thesis using ih cnt by simp
  qed
qed

lemma page_loop_paged:
  assumes "0 < limit" and "\<And>a xs ys. absorb (absorb a xs) ys = absorb a (xs @ ys)"
  shows "page_loop (paged records) limit absorb 1 acc 0 =
           Some (absorb acc records, length records div limit + 1)"
  using page_loop_paged_aux [OF assms refl, of records 0 acc 0] by simp

text \<open>Full pages followed by a failed request: the loop returns what it has absorbed.\<close>

lemma page_loop_fail:
  "\<forall>i < length pages. get limit (page + i) = Some (pages ! i) \<and> limit \<le> length (pages ! i) \<Longrightarrow>
   get limit (page + length pages) = None \<Longrightarrow>
   page_loop get limit absorb page acc requests = Some (foldl absorb acc pages, requests + length pages + 1)"
proof (induction pages arbitrary: page acc requests)
  case Nil
  then show ?case by (subst page_loop.simps) simp
next
  case (Cons p ps)
  from Cons.prems(1) have p: "get limit page = Some p" "limit \<le> length p" by force+
  have "\<forall>i < length ps. get limit (Suc page + i) = Some (ps ! i) \<and> limit \<le> length (ps ! i)"
    using Cons.prems(1) by force
  moreover have "get limit (Suc page + length ps) = None" using Cons.prems(2) by simp
  ultimately have "page_loop get limit absorb (Suc page) (absorb acc p) (Suc requests) =
      Some (foldl absorb (absorb acc p) ps, Suc requests + length ps + 1)"
    by (rule Cons.IH)
  then show ?case using p by (subst page_loop.simps) simp
qed

lemma foldl_absorb_concat:
  assumes "\<And>a xs ys. absorb (absorb a xs) ys = absorb a (xs @ ys)" and "\<And>a. absorb a [] = a"
  shows "foldl absorb acc pages = absorb acc (concat pages)"
proof (induction pages rule: rev_induct)
  case Nil
  then show ?case by (simp add: assms(2))
next
  case (snoc p ps)
  then show ?case by (simp add: assms(1))
qed

lemma page_loop_fail_first:
  assumes "\<forall>i < length pages. get limit (Suc i) = Some (pages ! i) \<and> limit \<le> length (pages ! i)"
    and "get limit (Suc (length pages)) = None"
    and "\<And>a xs ys. absorb (absorb a xs) ys = absorb a (xs @ ys)" and "\<And>a. absorb a [] = a"
  shows "page_loop get limit absorb 1 acc 0 = Some (absorb acc (concat pages), length pages + 1)"
  using page_loop_fail [of pages get limit 1 absorb acc 0] assms(1,2)
    foldl_absorb_concat [of absorb acc pages, OF assms(3,4)]
  by simp

lemma add_properties_append:
  "add_properties (add_properties m xs) ys = add_properties m (xs @ ys)"
  by (induction xs arbitrary: m) simp_all

lemma housekeeping_append:
  "(a @ housekeeping_tasks xs) @ housekeeping_tasks ys = a @ housekeeping_tasks (xs @ ys)"
  by (simp add: housekeeping_tasks_def)

text \<open>A property of the accumulator that every page keeps holds of the loop's result.\<close>

lemma page_loop_invariant_aux:
  "page_loop get limit absorb page acc requests = Some y \<Longrightarrow>
     (\<forall>a rs. P a \<longrightarrow> P (absorb a rs)) \<longrightarrow> P acc \<longrightarrow> P (fst y)"
proof (induction rule: page_loop.raw_induct [rotated 1, consumes 1])
  case (1 loop get limit absorb page acc requests y)
  show ?case
  proof (intro impI)
    assume step: "\<forall>a rs. P a \<longrightarrow> P (absorb a rs)" and acc: "P acc"
    show "P (fst y)"
    proof (cases "get limit page")
      case None
      with 1(2) acc show ?thesis by auto
    next
      case (Some results)
      show ?thesis
      proof (cases "length results < limit")
        case True
        with Some 1(2) step acc show ?thesis by auto
      next
        case False
        with Some 1(2) have "loop get limit absorb (Suc page) (absorb acc results) (Suc requests) = Some y"
          by simp
        from 1(1) [OF this] step acc show ?thesis by simp
      qed
    qed
  qed
qed

lemma fetch_tasks_housekeeping:
  assumes "fetch_tasks home_id date src = Some ts"
  shows "\<forall>t \<in> set ts. type_department t = Some ''housekeeping''"
proof -
  let ?P = "\<lambda>ts. \<forall>t \<in> set ts. type_department t = Some ''housekeeping''"
  from assms obtain n where r: "page_loop (get_task src home_id date) 100
       (\<lambda>all_tasks results. all_tasks @ housekeeping_tasks results) 1 [] 0 = Some (ts, n)"
    by (auto simp: fetch_tasks_def fetch_tasks_run_def)
  have step: "\<forall>a rs. ?P a \<longrightarrow> ?P (a @ housekeeping_tasks rs)"
    by (auto simp: housekeeping_tasks_def)
  have init: "?P []" by simp
  from page_loop_invariant_aux [OF r, where P = ?P] step init
  have "?P (fst (ts, n))" by blast
  then show ?thesis by simp
qed


lemma fetch_property_map_run_paged:
  "get_property src = paged props \<Longrightarrow>
     fetch_property_map_run src = Some (add_properties [] props, length props div 100 + 1)"
  unfolding fetch_property_map_run_def
  by (simp only: page_loop_paged [of 100 add_properties, OF _ add_properties_append])

lemma fetch_reservations_run_paged:
  assumes "get_reservation src checkin date = paged ress"
  shows "fetch_reservations_run date src checkin = Some (ress, length ress div 100 + 1)"
proof -
  have "page_loop (paged ress) 100 (\<lambda>reservations results. reservations @ results) 1 [] 0
          = Some ([] @ ress, length ress div 100 + 1)"
    by (rule page_loop_paged) simp_all
  with assms show ?thesis by (simp add: fetch_reservations_run_def)
qed

lemma fetch_tasks_run_paged:
  assumes "get_task src home_id date = paged tasks"
  shows "fetch_tasks_run home_id date src = Some (housekeeping_tasks tasks, length tasks div 100 + 1)"
proof -
  have "page_loop (paged tasks) 100 (\<lambda>all_tasks results. all_tasks @ housekeeping_tasks results) 1 [] 0
          = Some ([] @ housekeeping_tasks tasks, length tasks div 100 + 1)"
    by (rule page_loop_paged) (simp_all add: housekeeping_tasks_def)
  with assms show ?thesis by (simp add: fetch_tasks_run_def)
qed

lemma fetch_property_map_run_fail:
  assumes "\<forall>i < length pages. get_property src 100 (Suc i) = Some (pages ! i) \<and> 100 \<le> length (pages ! i)"
    and "get_property src 100 (Suc (length pages)) = None"
  shows "fetch_property_map_run src = Some (add_properties [] (concat pages), length pages + 1)"
  unfolding fetch_property_map_run_def
  using assms by (intro page_loop_fail_first) (simp_all add: add_properties_append)

lemma fetch_reservations_run_fail:
  assumes "\<forall>i < length pages. get_reservation src checkin date 100 (Suc i) = Some (pages ! i)
             \<and> 100 \<le> length (pages ! i)"
    and "get_reservation src checkin date 100 (Suc (length pages)) = None"
  shows "fetch_reservations_run date src checkin = Some (concat pages, length pages + 1)"
proof -
  from assms have "page_loop (get_reservation src checkin date) 100
      (\<lambda>reservations results. reservations @ results) 1 [] 0
      = Some ([] @ concat pages, length pages + 1)"
    by (intro page_loop_fail_first) simp_all
  then show ?thesis by (simp add: fetch_reservations_run_def)
qed

lemma fetch_tasks_run_fail:
  assumes "\<forall>i < length pages. get_task src home_id date 100 (Suc i) = Some (pages ! i)
             \<and> 100 \<le> length (pages ! i)"
    and "get_task src home_id date 100 (Suc (length pages)) = None"
  shows "fetch_tasks_run home_id date src = Some (housekeeping_tasks (concat pages), length pages + 1)"
proof -
  from assms have "page_loop (get_task src home_id date) 100
      (\<lambda>all_tasks results. all_tasks @ housekeeping_tasks results) 1 [] 0
      = Some ([] @ housekeeping_tasks (concat pages), length pages + 1)"
    by (intro page_loop_fail_first) (simp_all add: housekeeping_tasks_def)
  then show ?thesis by (simp add: fetch_tasks_run_def)
qed

text \<open>What the fetches give on the source that fails every request.\<close>

lemma fetch_property_map_no_source: "fetch_property_map no_source = Some []"
  using fetch_property_map_run_fail [of "[]" no_source]
  by (simp add: fetch_property_map_def no_source_def)

lemma fetch_reservations_no_source: "fetch_reservations date no_source checkin = Some []"
  using fetch_reservations_run_fail [of "[]" no_source checkin date]
  by (simp add: fetch_reservations_def no_source_def)

lemma fetch_tasks_no_source: "fetch_tasks home_id date no_source = Some []"
  using fetch_tasks_run_fail [of "[]" no_source home_id date]
  by (simp add: fetch_tasks_def no_source_def housekeeping_tasks_def)

text \<open>
  Claim C4, as stated, bounds the page requests on a well-behaved source by
  \<open>ceil (total_records / limit)\<close>. Counterexample: a source holding exactly 100 reservations.
  The first page is full, so the loop asks for a second one, which is empty: 2 requests, while
  \<open>ceil (100 / 100) = 1\<close>.
\<close>

theorem page_bound_counterexample:
  "fetch_reservations_run ''2024-05-02''
       (no_source\<lparr>get_reservation := \<lambda>checkin date. paged (replicate 100 a_reservation)\<rparr>) True
     = Some (replicate 100 a_reservation, 2)
   \<and> (length (replicate 100 a_reservation) + 99) div 100 = 1"
  using fetch_reservations_run_paged
    [of "no_source\<lparr>get_reservation := \<lambda>checkin date. paged (replicate 100 a_reservation)\<rparr>"
        True "''2024-05-02''" "replicate 100 a_reservation"]
  by simp

text \<open>
  Claim C4, amended. For each of the three fetch loops, on a well-behaved source that holds
  \<open>total_records\<close> records and returns them 100 at a time, the loop issues exactly
  \<open>total_records div 100 + 1\<close> page requests and then returns all the records (the active
  properties; the reservations; the housekeeping tasks). And when the pages before page
  \<open>k\<close> are full and the request for page \<open>k\<close> does not succeed, the loop returns after
  that request, with what the pages before gave and without an error.
\<close>

theorem fetch_loops_requests:
  "(get_property src = paged props \<longrightarrow>
      fetch_property_map_run src = Some (add_properties [] props, length props div 100 + 1))
   \<and> (get_reservation src checkin date = paged ress \<longrightarrow>
      fetch_reservations_run date src checkin = Some (ress, length ress div 100 + 1))
   \<and> (get_task src home_id date = paged tasks \<longrightarrow>
      fetch_tasks_run home_id date src = Some (housekeeping_tasks tasks, length tasks div 100 + 1))
   \<and> ((\<forall>i < length ppages. get_property src 100 (Suc i) = Some (ppages ! i) \<and> 100 \<le> length (ppages ! i))
        \<and> get_property src 100 (Suc (length ppages)) = None \<longrightarrow>
      fetch_property_map_run src = Some (add_properties [] (concat ppages), length ppages + 1))
   \<and> ((\<forall>i < length rpages. get_reservation src checkin date 100 (Suc i) = Some (rpages ! i)
            \<and> 100 \<le> length (rpages ! i))
        \<and> get_reservation src checkin date 100 (Suc (length rpages)) = None \<longrightarrow>
      fetch_reservations_run date src checkin = Some (concat rpages, length rpages + 1))
   \<and> ((\<forall>i < length tpages. get_task src home_id date 100 (Suc i) = Some (tpages ! i)
            \<and> 100 \<le> length (tpages ! i))
        \<and> get_task src home_id date 100 (Suc (length tpages)) = None \<longrightarrow>
      fetch_tasks_run home_id date src = Some (housekeeping_tasks (concat tpages), length tpages + 1))"
proof (intro conjI impI)
  assume "get_property src = paged props"
  then show "fetch_property_map_run src = Some (add_properties [] props, length props div 100 + 1)"
    by (rule fetch_property_map_run_paged)
next
  assume "get_reservation src checkin date = paged ress"
  then show "fetch_reservations_run date src checkin = Some (ress, length ress div 100 + 1)"
    by (rule fetch_reservations_run_paged)
next
  assume "get_task src home_id date = paged tasks"
  then show "fetch_tasks_run home_id date src
      = Some (housekeeping_tasks tasks, length tasks div 100 + 1)"
    by (rule fetch_tasks_run_paged)
next
  assume a: "(\<forall>i < length ppages. get_property src 100 (Suc i) = Some (ppages ! i) \<and> 100 \<le> length (ppages ! i))
        \<and> get_property src 100 (Suc (length ppages)) = None"
  show "fetch_property_map_run src = Some (add_properties [] (concat ppages), length ppages + 1)"
    by (rule fetch_property_map_run_fail [OF conjunct1 [OF a] conjunct2 [OF a]])
next
  assume a: "(\<forall>i < length rpages. get_reservation src checkin date 100 (Suc i) = Some (rpages ! i)
            \<and> 100 \<le> length (rpages ! i))
        \<and> get_reservation src checkin date 100 (Suc (length rpages)) = None"
  show "fetch_reservations_run date src checkin = Some (concat rpages, length rpages + 1)"
    by (rule fetch_reservations_run_fail [OF conjunct1 [OF a] conjunct2 [OF a]])
next
  assume a: "(\<forall>i < length tpages. get_task src home_id date 100 (Suc i) = Some (tpages ! i)
            \<and> 100 \<le> length (tpages ! i))
        \<and> get_task src home_id date 100 (Suc (length tpages)) = None"
  show "fetch_tasks_run home_id date src
      = Some (housekeeping_tasks (concat tpages), length tpages + 1)"
    by (rule fetch_tasks_run_fail [OF conjunct1 [OF a] conjunct2 [OF a]])
qed

text \<open>
  Witness for C4: a property endpoint holding two properties, a reservation endpoint holding 250
  reservations, and a task endpoint whose first request fails.
\<close>

theorem fetch_loops_requests_witness:
  "fetch_property_map_run (no_source\<lparr>get_property := paged [active_prop, closed_prop]\<rparr>)
     = Some ([(Some 5, \<lparr>pi_name = ''Casa Azul''\<rparr>)], 1)
   \<and> fetch_reservations_run ''2024-05-02''
       (no_source\<lparr>get_reservation := \<lambda>checkin date. paged (replicate 250 a_reservation)\<rparr>) True
     = Some (replicate 250 a_reservation, 3)
   \<and> fetch_tasks_run (Some 5) ''2024-05-02'' no_source = Some ([], 1)"
proof -
  let ?p = "no_source\<lparr>get_property := paged [active_prop, closed_prop]\<rparr>"
  let ?r = "no_source\<lparr>get_reservation := \<lambda>checkin date. paged (replicate 250 a_reservation)\<rparr>"
  have "get_property ?p = paged [active_prop, closed_prop]" by simp
  with fetch_loops_requests [where src = ?p and props = "[active_prop, closed_prop]"]
  have "fetch_property_map_run ?p
          = Some (add_properties [] [active_prop, closed_prop], length [active_prop, closed_prop] div 100 + 1)"
    by blast
  then have 1: "fetch_property_map_run ?p = Some ([(Some 5, \<lparr>pi_name = ''Casa Azul''\<rparr>)], 1)"
    by (simp add: active_prop_def closed_prop_def or_default_def)
  have "get_reservation ?r True ''2024-05-02'' = paged (replicate 250 a_reservation)" by simp
  with fetch_loops_requests [where src = ?r and checkin = True and date = "''2024-05-02''"
      and ress = "replicate 250 a_reservation"]
  have "fetch_reservations_run ''2024-05-02'' ?r True
          = Some (replicate 250 a_reservation, length (replicate 250 a_reservation) div 100 + 1)"
    by blast
  then have 2: "fetch_reservations_run ''2024-05-02'' ?r True = Some (replicate 250 a_reservation, 3)"
    by simp
  have "(\<forall>i < length ([] :: task list list). get_task no_source (Some 5) ''2024-05-02'' 100 (Suc i) = Some ([] ! i)
            \<and> 100 \<le> length (([] :: task list list) ! i))
        \<and> get_task no_source (Some 5) ''2024-05-02'' 100 (Suc (length ([] :: task list list))) = None"
    by (simp add: no_source_def)
  with fetch_loops_requests [where src = no_source and home_id = "Some 5" and date = "''2024-05-02''"
      and tpages = "[]"]
  have "fetch_tasks_run (Some 5) ''2024-05-02'' no_source
          = Some (housekeeping_tasks (concat []), length ([] :: task list list) + 1)"
    by blast
  then have 3: "fetch_tasks_run (Some 5) ''2024-05-02'' no_source = Some ([], 1)"
    by (simp add: housekeeping_tasks_def)
  from 1 2 3 show ?thesis by simp
qed

section \<open>The department filter\<close>




section \<open>Properties of yesterday's summary\<close>

lemma yesterday_assignment_loop_map:
  "yesterday_assignment_loop prop_name task_name task as out =
     out @ map (\<lambda>a. ''- '' @ prop_name @ '' - '' @ task_name @ '' - ''
                    @ or_default (a_name a) ''Unknown'' @ '' - ''
                    @ (if type_task_user_status a = Some ''completed'' \<or> truthy (finished_at task)
                       then ''Completed'' else ''Not completed'')) as"
  by (induction as arbitrary: out) simp_all

lemma yesterday_task_loop_concat:
  "\<forall>t \<in> set tasks. type_department t = Some ''housekeeping'' \<Longrightarrow>
   yesterday_task_loop prop_name tasks out =
     out @ concat (map (\<lambda>task. map (\<lambda>a. ''- '' @ prop_name @ '' - '' @ task_label task @ '' - ''
                    @ or_default (a_name a) ''Unknown'' @ '' - ''
                    @ (if type_task_user_status a = Some ''completed'' \<or> truthy (finished_at task)
                       then ''Completed'' else ''Not completed'')) (assignments task)) tasks)"
proof (induction tasks arbitrary: out)
  case Nil
  then show ?case by simp
next
  case (Cons task tasks)
  then show ?case
    by (cases "assignments task = []") (simp_all add: yesterday_assignment_loop_map)
qed

lemma yesterday_property_loop_concat:
  "\<forall>(prop_id, prop_info) \<in> set property_map. fetch_tasks prop_id yesterday src = Some (tasks_of prop_id) \<Longrightarrow>
   yesterday_property_loop src yesterday property_map out =
     Some (out @ concat (map (\<lambda>(prop_id, prop_info).
       concat (map (\<lambda>task. map (\<lambda>a. ''- '' @ pi_name prop_info @ '' - '' @ task_label task @ '' - ''
                    @ or_default (a_name a) ''Unknown'' @ '' - ''
                    @ (if type_task_user_status a = Some ''completed'' \<or> truthy (finished_at task)
                       then ''Completed'' else ''Not completed'')) (assignments task)) (tasks_of prop_id)))
       property_map))"
proof (induction property_map arbitrary: out)
  case Nil
  then show ?case by simp
next
  case (Cons p property_map)
  obtain prop_id prop_info where p: "p = (prop_id, prop_info)" by (cases p)
  from Cons.prems p have f: "fetch_tasks prop_id yesterday src = Some (tasks_of prop_id)" by simp
  then have hk: "\<forall>t \<in> set (tasks_of prop_id). type_department t = Some ''housekeeping''"
    by (rule fetch_tasks_housekeeping)
  from Cons.prems have rest: "\<forall>(prop_id, prop_info) \<in> set property_map.
      fetch_tasks prop_id yesterday src = Some (tasks_of prop_id)" by simp
  show ?case
    unfolding p
    by (cases "tasks_of prop_id = []")
      (simp_all add: f Cons.IH [OF rest] yesterday_task_loop_concat [OF hk])
qed

text \<open>
  Claim C9. In yesterday's summary a task without assignments adds no line, and a task with
  assignments adds one line for each assignment, in order; the line ends in \<open>Completed\<close> if
  the assignment's status is \<open>completed\<close> or the task has a non-empty \<open>finished_at\<close>, and in
  \<open>Not completed\<close> otherwise. Here \<open>tasks_of\<close> gives the tasks fetched for each property.
\<close>

theorem yesterday_summary_lines:
  assumes "fetch_property_map src = Some property_map"
    and "\<forall>(prop_id, prop_info) \<in> set property_map.
           fetch_tasks prop_id yesterday src = Some (tasks_of prop_id)"
  shows "fetch_yesterday_cleanings src yesterday =
     Some (join_lines (yesterday_header yesterday #
       concat (map (\<lambda>(prop_id, prop_info).
         concat (map (\<lambda>task.
           map (\<lambda>a. ''- '' @ pi_name prop_info @ '' - '' @ task_label task @ '' - ''
                    @ or_default (a_name a) ''Unknown'' @ '' - ''
                    @ (if type_task_user_status a = Some ''completed'' \<or> truthy (finished_at task)
                       then ''Completed'' else ''Not completed''))
               (assignments task))
           (tasks_of prop_id)))
         property_map)))"
  unfolding fetch_yesterday_cleanings_def
  by (simp add: assms(1) yesterday_property_loop_concat [OF assms(2)])

lemma fetch_property_map_day_source:
  "fetch_property_map day_source = Some [(Some 5, \<lparr>pi_name = ''Casa Azul''\<rparr>)]"
proof -
  have "get_property day_source = paged [active_prop]" by (simp add: day_source_def)
  from fetch_property_map_run_paged [OF this] show ?thesis
    by (simp add: fetch_property_map_def active_prop_def or_default_def)
qed

lemma fetch_tasks_day_source:
  "fetch_tasks home_id date day_source
     = Some [shared_task, open_task, done_task ''Linen change'' ''Cy'' ''2024-05-01T10:15:00Z'']"
proof -
  have "get_task day_source home_id date
          = paged [shared_task, open_task, done_task ''Linen change'' ''Cy'' ''2024-05-01T10:15:00Z'']"
    by (simp add: day_source_def)
  from fetch_tasks_run_paged [OF this] show ?thesis
    by (simp add: fetch_tasks_def housekeeping_tasks_def shared_task_def open_task_def done_task_def)
qed

text \<open>
  Witness for C9: one property with three tasks. The first has a cleaner who completed and one
  who did not; the second has no assignment; the third is finished.
\<close>

theorem yesterday_summary_lines_witness:
  "fetch_yesterday_cleanings day_source ''2024-05-01'' =
     Some (join_lines [yesterday_header ''2024-05-01'',
       ''- Casa Azul - Deep clean - Ana - Completed'',
       ''- Casa Azul - Deep clean - Bo - Not completed'',
       ''- Casa Azul - Linen change - Cy - Completed''])"
proof -
  let ?tasks_of = "\<lambda>prop_id :: int option.
     [shared_task, open_task, done_task ''Linen change'' ''Cy'' ''2024-05-01T10:15:00Z'']"
  have t: "\<forall>(prop_id, prop_info) \<in> set [(Some 5, \<lparr>pi_name = ''Casa Azul''\<rparr>)].
           fetch_tasks prop_id ''2024-05-01'' day_source = Some (?tasks_of prop_id)"
    by (simp add: fetch_tasks_day_source)
  from yesterday_summary_lines [OF fetch_property_map_day_source t] show ?thesis
    by (simp add: shared_task_def open_task_def done_task_def task_label_def or_default_def truthy_def)
qed

section \<open>Properties of the check-out and pending sections\<close>

lemma fst_checkout_loop:
  "fst (checkout_loop property_map cleaning_map ress checkout_props out) =
     checkout_props \<union> {n. \<exists>res \<in> set ress. \<exists>info.
        map_of property_map (property_id res) = Some info \<and> pi_name info = n}"
  by (induction ress arbitrary: checkout_props out) (auto split: option.splits)

lemma pending_loop_concat:
  "pending_loop cleaning_map checkout_props out has_pending =
     (out @ concat (map snd (filter (\<lambda>e. fst e \<notin> checkout_props) cleaning_map)),
      has_pending \<or> concat (map snd (filter (\<lambda>e. fst e \<notin> checkout_props) cleaning_map)) \<noteq> [])"
  by (induction cleaning_map arbitrary: out has_pending) auto

lemma cleaning_assignment_loop_lines:
  "cleaning_assignment_loop prop_name task_name as cleanings =
     cleanings @ map (\<lambda>a. prop_name @ '' - '' @ task_name @ '' - ''
                       @ or_default (a_name a) ''Not assigned'' @ '' - ''
                       @ or_default (type_task_user_status a) ''Unknown'') as"
  by (induction as arbitrary: cleanings) simp_all

lemma cleaning_task_loop_lines:
  "cleaning_task_loop prop_name tasks cleanings =
     cleanings @ concat (map (\<lambda>task.
        if assignments task = [] then [prop_name @ '' - '' @ task_label task @ '' - Not assigned'']
        else map (\<lambda>a. prop_name @ '' - '' @ task_label task @ '' - ''
                       @ or_default (a_name a) ''Not assigned'' @ '' - ''
                       @ or_default (type_task_user_status a) ''Unknown'') (assignments task)) tasks)"
  by (induction tasks arbitrary: cleanings) (simp_all add: cleaning_assignment_loop_lines)

lemma cleaning_task_loop_nonempty:
  "tasks \<noteq> [] \<Longrightarrow> cleaning_task_loop prop_name tasks [] \<noteq> []"
  by (cases tasks) (auto simp: cleaning_task_loop_lines)

lemma cleaning_task_loop_prefix:
  "c \<in> set (cleaning_task_loop prop_name tasks []) \<Longrightarrow> \<exists>rest. c = prop_name @ '' - '' @ rest"
  by (auto simp: cleaning_task_loop_lines split: if_splits)

lemma set_dict_set:
  "set (dict_set d k v) \<subseteq> insert (k, v) (set d)"
  by (induction d k v rule: dict_set.induct) auto

lemma cleaning_map_loop_entries:
  "cleaning_map_loop src today property_map cm = Some cleaning_map \<Longrightarrow>
   \<forall>(n, cs) \<in> set cm. cs \<noteq> [] \<and> (\<forall>c \<in> set cs. \<exists>rest. c = n @ '' - '' @ rest) \<Longrightarrow>
   \<forall>(n, cs) \<in> set cleaning_map. cs \<noteq> [] \<and> (\<forall>c \<in> set cs. \<exists>rest. c = n @ '' - '' @ rest)"
proof (induction property_map arbitrary: cm)
  case Nil
  then show ?case by simp
next
  case (Cons p property_map)
  obtain prop_id prop_info where p: "p = (prop_id, prop_info)" by (cases p)
  from Cons.prems(1) p obtain tasks where t: "fetch_tasks prop_id today src = Some tasks"
    by (auto split: option.splits)
  let ?cm = "if tasks \<noteq> []
             then dict_set cm (pi_name prop_info) (cleaning_task_loop (pi_name prop_info) tasks [])
             else cm"
  from Cons.prems(1) p t have l: "cleaning_map_loop src today property_map ?cm = Some cleaning_map"
    by simp
  have "\<forall>(n, cs) \<in> set ?cm. cs \<noteq> [] \<and> (\<forall>c \<in> set cs. \<exists>rest. c = n @ '' - '' @ rest)"
  proof (cases "tasks = []")
    case True
    with Cons.prems(2) show ?thesis by simp
  next
    case False
    have "\<forall>e \<in> insert (pi_name prop_info, cleaning_task_loop (pi_name prop_info) tasks []) (set cm).
            case e of (n, cs) \<Rightarrow> cs \<noteq> [] \<and> (\<forall>c \<in> set cs. \<exists>rest. c = n @ '' - '' @ rest)"
      using Cons.prems(2) False
      by (auto simp: cleaning_task_loop_nonempty dest: cleaning_task_loop_prefix)
    moreover have "set ?cm \<subseteq> insert (pi_name prop_info, cleaning_task_loop (pi_name prop_info) tasks []) (set cm)"
      using False by (simp add: set_dict_set)
    ultimately show ?thesis by blast
  qed
  with l show ?case by (rule Cons.IH)
qed

text \<open>
  Claim C7. The check-out set holds the names of the known properties that have a check-out
  reservation today. The pending section is its header followed by the lines of exactly those
  entries of the task mapping whose property name is not in that set, in the mapping's order (or
  by the placeholder when there is none). Every entry of the mapping has at least one line, and
  each of its lines begins with its property name, so a property of the task mapping has
  pending lines if and only if it is absent from the check-out set.
\<close>

theorem pending_excludes_checkouts:
  assumes "cleaning_map_loop src today property_map [] = Some cleaning_map"
    and "checkout_props = fst (checkout_section property_map cleaning_map checkouts)"
  shows "checkout_props = {n. \<exists>res \<in> set checkouts. \<exists>info.
            map_of property_map (property_id res) = Some info \<and> pi_name info = n}
       \<and> pending_section cleaning_map checkout_props =
           (nl @ ''Pending cleanings:'') #
             (if concat (map snd (filter (\<lambda>e. fst e \<notin> checkout_props) cleaning_map)) = []
              then [''No pending cleanings today.'']
              else concat (map snd (filter (\<lambda>e. fst e \<notin> checkout_props) cleaning_map)))
       \<and> (\<forall>(n, cs) \<in> set cleaning_map. cs \<noteq> [] \<and> (\<forall>c \<in> set cs. \<exists>rest. c = n @ '' - '' @ rest))"
proof (intro conjI)
  show "checkout_props = {n. \<exists>res \<in> set checkouts. \<exists>info.
            map_of property_map (property_id res) = Some info \<and> pi_name info = n}"
    unfolding assms(2) checkout_section_def by (simp add: fst_checkout_loop)
next
  show "pending_section cleaning_map checkout_props =
           (nl @ ''Pending cleanings:'') #
             (if concat (map snd (filter (\<lambda>e. fst e \<notin> checkout_props) cleaning_map)) = []
              then [''No pending cleanings today.'']
              else concat (map snd (filter (\<lambda>e. fst e \<notin> checkout_props) cleaning_map)))"
  proof -
    define pending where
      "pending = concat (map snd (filter (\<lambda>e. fst e \<notin> checkout_props) cleaning_map))"
    have "pending_loop cleaning_map checkout_props [nl @ ''Pending cleanings:''] False
            = ([nl @ ''Pending cleanings:''] @ pending, False \<or> pending \<noteq> [])"
      unfolding pending_def by (rule pending_loop_concat)
    then have "pending_section cleaning_map checkout_props =
        (nl @ ''Pending cleanings:'') # (if pending = [] then [''No pending cleanings today.''] else pending)"
      by (simp add: pending_section_def)
    then show ?thesis unfolding pending_def .
  qed
next
  from assms(1) show "\<forall>(n, cs) \<in> set cleaning_map.
      cs \<noteq> [] \<and> (\<forall>c \<in> set cs. \<exists>rest. c = n @ '' - '' @ rest)"
    by (rule cleaning_map_loop_entries) simp
qed

lemma cleaning_map_day_source:
  "cleaning_map_loop day_source ''2024-05-02'' [(Some 5, \<lparr>pi_name = ''Casa Azul''\<rparr>)] [] =
     Some [(''Casa Azul'', [''Casa Azul - Deep clean - Ana - completed'',
                           ''Casa Azul - Deep clean - Bo - in_progress'',
                           ''Casa Azul - Departure clean - Not assigned'',
                           ''Casa Azul - Linen change - Cy - completed''])]"
  by (simp add: fetch_tasks_day_source shared_task_def open_task_def done_task_def
      task_label_def or_default_def)

text \<open>
  Witness for C7: one property with four cleaning lines, once with a check-out today (nothing
  is pending) and once without (all four lines are pending).
\<close>

theorem pending_excludes_checkouts_witness:
  "pending_section
       [(''Casa Azul'', [''Casa Azul - Deep clean - Ana - completed'',
                        ''Casa Azul - Deep clean - Bo - in_progress'',
                        ''Casa Azul - Departure clean - Not assigned'',
                        ''Casa Azul - Linen change - Cy - completed''])]
       (fst (checkout_section [(Some 5, \<lparr>pi_name = ''Casa Azul''\<rparr>)]
          [(''Casa Azul'', [''Casa Azul - Deep clean - Ana - completed'',
                           ''Casa Azul - Deep clean - Bo - in_progress'',
                           ''Casa Azul - Departure clean - Not assigned'',
                           ''Casa Azul - Linen change - Cy - completed''])]
          [a_reservation]))
     = [nl @ ''Pending cleanings:'', ''No pending cleanings today.'']
   \<and> pending_section
       [(''Casa Azul'', [''Casa Azul - Deep clean - Ana - completed'',
                        ''Casa Azul - Deep clean - Bo - in_progress'',
                        ''Casa Azul - Departure clean - Not assigned'',
                        ''Casa Azul - Linen change - Cy - completed''])]
       (fst (checkout_section [(Some 5, \<lparr>pi_name = ''Casa Azul''\<rparr>)]
          [(''Casa Azul'', [''Casa Azul - Deep clean - Ana - completed'',
                           ''Casa Azul - Deep clean - Bo - in_progress'',
                           ''Casa Azul - Departure clean - Not assigned'',
                           ''Casa Azul - Linen change - Cy - completed''])]
          []))
     = [nl @ ''Pending cleanings:'',
        ''Casa Azul - Deep clean - Ana - completed'',
        ''Casa Azul - Deep clean - Bo - in_progress'',
        ''Casa Azul - Departure clean - Not assigned'',
        ''Casa Azul - Linen change - Cy - completed'']"
proof -
  let ?pm = "[(Some 5, \<lparr>pi_name = ''Casa Azul''\<rparr>)]"
  let ?cm = "[(''Casa Azul'', [''Casa Azul - Deep clean - Ana - completed'',
                        ''Casa Azul - Deep clean - Bo - in_progress'',
                        ''Casa Azul - Departure clean - Not assigned'',
                        ''Casa Azul - Linen change - Cy - completed''])]"
  note t = pending_excludes_checkouts [OF cleaning_map_day_source refl]
  note t1 = conjunct1 [OF t]
  note t2 = conjunct1 [OF conjunct2 [OF t]]
  have 1: "fst (checkout_section ?pm ?cm [a_reservation]) = {''Casa Azul''}"
    by (subst t1) (simp add: a_reservation_def)
  have 2: "pending_section ?cm (fst (checkout_section ?pm ?cm [a_reservation]))
      = [nl @ ''Pending cleanings:'', ''No pending cleanings today.'']"
    by (subst t2) (simp add: 1)
  have 3: "fst (checkout_section ?pm ?cm []) = {}"
    by (subst t1) simp
  have 4: "pending_section ?cm (fst (checkout_section ?pm ?cm []))
      = [nl @ ''Pending cleanings:'',
        ''Casa Azul - Deep clean - Ana - completed'',
        ''Casa Azul - Deep clean - Bo - in_progress'',
        ''Casa Azul - Departure clean - Not assigned'',
        ''Casa Azul - Linen change - Cy - completed'']"
    by (subst t2) (simp add: 3)
  from 2 4 show ?thesis by (rule conjI)
qed

section \<open>Properties of the check-ins section and of the cleaning map\<close>

lemma status_returns_all:
  assumes "\<forall>pid lcd. \<exists>ts. fetch_window src pid lcd today = Some ts"
  shows "\<exists>s. get_checkin_cleaning_status prop_id src last_checkout_date today = Some (Inr s)"
proof -
  from assms obtain ts where "fetch_window src prop_id last_checkout_date today = Some ts" by blast
  then show ?thesis by (rule status_returns)
qed

text \<open>
  What the loop over the check-in reservations appends: entries with pairwise different names,
  none of them printed before, and for each name the status of the first reservation whose
  property has that name.
\<close>

lemma checkin_loop_entries:
  assumes co: "fetch_reservations today src False = Some checkouts"
    and win: "\<forall>pid lcd. \<exists>ts. fetch_window src pid lcd today = Some ts"
  shows "\<exists>new. checkin_loop src today fallback pm ress printed out
                 = Some (Inr (printed \<union> fst ` set new, out @ new))
          \<and> distinct (map fst new) \<and> fst ` set new \<inter> printed = {}
          \<and> (\<forall>n r st. n \<notin> printed \<longrightarrow>
                find (\<lambda>q. \<exists>i. map_of pm (property_id q) = Some i \<and> pi_name i = n) ress = Some r \<longrightarrow>
                get_checkin_cleaning_status (property_id r) src
                  (last_checkout (property_id r) checkouts fallback) today = Some (Inr st) \<longrightarrow>
                (n, st) \<in> set new)"
proof (induction ress arbitrary: printed out)
  case Nil
  have "checkin_loop src today fallback pm [] printed out = Some (Inr (printed \<union> fst ` set [], out @ []))"
    by simp
  then show ?case by (intro exI [of _ "[]"]) simp
next
  case (Cons res rest)
  let ?status = "\<lambda>r. get_checkin_cleaning_status (property_id r) src
                  (last_checkout (property_id r) checkouts fallback) today"
  let ?named = "\<lambda>n q. \<exists>i. map_of pm (property_id q) = Some i \<and> pi_name i = n"
  consider (unknown) "map_of pm (property_id res) = None"
    | (seen) info where "map_of pm (property_id res) = Some info" "pi_name info \<in> printed"
    | (fresh) info where "map_of pm (property_id res) = Some info" "pi_name info \<notin> printed"
    by (cases "map_of pm (property_id res)") auto
  then show ?case
  proof cases
    case unknown
    from Cons.IH [of printed out] obtain new where
      l: "checkin_loop src today fallback pm rest printed out = Some (Inr (printed \<union> fst ` set new, out @ new))"
      and d: "distinct (map fst new)" and i: "fst ` set new \<inter> printed = {}"
      and f: "\<forall>n r st. n \<notin> printed \<longrightarrow> find (?named n) rest = Some r \<longrightarrow>
                ?status r = Some (Inr st) \<longrightarrow> (n, st) \<in> set new"
      by blast
    have l': "checkin_loop src today fallback pm (res # rest) printed out
               = Some (Inr (printed \<union> fst ` set new, out @ new))"
      using unknown l by simp
    have "\<And>n. find (?named n) (res # rest) = find (?named n) rest"
      using unknown by simp
    with f have f': "\<forall>n r st. n \<notin> printed \<longrightarrow> find (?named n) (res # rest) = Some r \<longrightarrow>
                ?status r = Some (Inr st) \<longrightarrow> (n, st) \<in> set new"
      by simp
    from l' d i f' show ?thesis by blast
  next
    case seen
    from Cons.IH [of printed out] obtain new where
      l: "checkin_loop src today fallback pm rest printed out = Some (Inr (printed \<union> fst ` set new, out @ new))"
      and d: "distinct (map fst new)" and i: "fst ` set new \<inter> printed = {}"
      and f: "\<forall>n r st. n \<notin> printed \<longrightarrow> find (?named n) rest = Some r \<longrightarrow>
                ?status r = Some (Inr st) \<longrightarrow> (n, st) \<in> set new"
      by blast
    have l': "checkin_loop src today fallback pm (res # rest) printed out
               = Some (Inr (printed \<union> fst ` set new, out @ new))"
      using seen l by simp
    have "\<And>n. n \<notin> printed \<Longrightarrow> find (?named n) (res # rest) = find (?named n) rest"
      using seen by auto
    with f have f': "\<forall>n r st. n \<notin> printed \<longrightarrow> find (?named n) (res # rest) = Some r \<longrightarrow>
                ?status r = Some (Inr st) \<longrightarrow> (n, st) \<in> set new"
      by simp
    from l' d i f' show ?thesis by blast
  next
    case fresh
    let ?n = "pi_name info"
    from status_returns_all [OF win] obtain s where s: "?status res = Some (Inr s)" by blast
    from Cons.IH [of "insert ?n printed" "out @ [(?n, s)]"] obtain new where
      l: "checkin_loop src today fallback pm rest (insert ?n printed) (out @ [(?n, s)])
            = Some (Inr (insert ?n printed \<union> fst ` set new, (out @ [(?n, s)]) @ new))"
      and d: "distinct (map fst new)" and i: "fst ` set new \<inter> insert ?n printed = {}"
      and f: "\<forall>n r st. n \<notin> insert ?n printed \<longrightarrow> find (?named n) rest = Some r \<longrightarrow>
                ?status r = Some (Inr st) \<longrightarrow> (n, st) \<in> set new"
      by blast
    let ?new = "(?n, s) # new"
    have l': "checkin_loop src today fallback pm (res # rest) printed out
               = Some (Inr (printed \<union> fst ` set ?new, out @ ?new))"
      using fresh co s l by simp
    have d': "distinct (map fst ?new)" using d i by auto
    have i': "fst ` set ?new \<inter> printed = {}" using i fresh(2) by auto
    have f': "\<forall>n r st. n \<notin> printed \<longrightarrow> find (?named n) (res # rest) = Some r \<longrightarrow>
                ?status r = Some (Inr st) \<longrightarrow> (n, st) \<in> set ?new"
    proof (intro allI impI)
      fix n r st
      assume n: "n \<notin> printed" and fd: "find (?named n) (res # rest) = Some r"
        and st: "?status r = Some (Inr st)"
      show "(n, st) \<in> set ?new"
      proof (cases "n = ?n")
        case True
        with fresh(1) fd have "r = res" by simp
        with st s True show ?thesis by simp
      next
        case False
        with fresh(1) fd have "find (?named n) rest = Some r" by auto
        moreover from False n have "n \<notin> insert ?n printed" by simp
        ultimately have "(n, st) \<in> set new" using f st by blast
        then show ?thesis by simp
      qed
    qed
    from l' d' i' f' show ?thesis by blast
  qed
qed


lemma filter_distinct_key:
  "distinct (map fst xs) \<Longrightarrow> (a, b) \<in> set xs \<Longrightarrow> filter (\<lambda>e. fst e = a) xs = [(a, b)]"
proof (induction xs)
  case Nil
  then show ?case by simp
next
  case (Cons x xs)
  show ?case
  proof (cases "fst x = a")
    case True
    with Cons.prems(1) have "a \<notin> fst ` set xs" by simp
    then have "\<forall>e \<in> set xs. fst e \<noteq> a" by blast
    then have "filter (\<lambda>e. fst e = a) xs = []" by (simp add: filter_empty_conv)
    moreover from True Cons.prems have "x = (a, b)" by (cases x) force
    ultimately show ?thesis by simp
  next
    case False
    with Cons show ?thesis by auto
  qed
qed

lemma filter_distinct_key_le:
  "distinct (map fst xs) \<Longrightarrow> length (filter (\<lambda>e. fst e = a) xs) \<le> 1"
proof (cases "a \<in> fst ` set xs")
  case True
  assume d: "distinct (map fst xs)"
  from True obtain b where "(a, b) \<in> set xs" by force
  from filter_distinct_key [OF d this] show ?thesis by simp
next
  case False
  then have "filter (\<lambda>e. fst e = a) xs = []" by (auto simp: filter_empty_conv)
  then show ?thesis by simp
qed

lemma checkin_loop_unknown:
  "\<forall>r \<in> set ress. map_of pm (property_id r) = None \<Longrightarrow>
   checkin_loop src today fallback pm ress printed out = Some (Inr (printed, out))"
  by (induction ress) simp_all






text \<open>The cleaning map as a fold over the property map.\<close>

lemma cleaning_map_loop_fold:
  "\<forall>(prop_id, prop_info) \<in> set property_map. fetch_tasks prop_id today src = Some (tasks_of prop_id) \<Longrightarrow>
   cleaning_map_loop src today property_map cm =
     Some (fold (\<lambda>(prop_id, prop_info) cm.
              if tasks_of prop_id \<noteq> []
              then dict_set cm (pi_name prop_info) (cleaning_task_loop (pi_name prop_info) (tasks_of prop_id) [])
              else cm) property_map cm)"
proof (induction property_map arbitrary: cm)
  case Nil
  then show ?case by simp
next
  case (Cons p property_map)
  obtain prop_id prop_info where p: "p = (prop_id, prop_info)" by (cases p)
  from Cons.prems p have f: "fetch_tasks prop_id today src = Some (tasks_of prop_id)" by simp
  from Cons.prems have rest: "\<forall>(prop_id, prop_info) \<in> set property_map.
      fetch_tasks prop_id today src = Some (tasks_of prop_id)" by simp
  show ?case unfolding p by (simp add: f Cons.IH [OF rest])
qed

lemma map_of_dict_set: "map_of (dict_set d k v) = (map_of d)(k \<mapsto> v)"
  by (induction d k v rule: dict_set.induct) auto

lemma keys_dict_set: "fst ` set (dict_set d k v) = insert k (fst ` set d)"
  by (induction d k v rule: dict_set.induct) auto

lemma distinct_dict_set: "distinct (map fst d) \<Longrightarrow> distinct (map fst (dict_set d k v))"
  by (induction d k v rule: dict_set.induct) (auto simp: keys_dict_set)

lemma fold_dict_distinct:
  "distinct (map fst cm) \<Longrightarrow>
   distinct (map fst (fold (\<lambda>(prop_id, prop_info) cm.
              if tasks_of prop_id \<noteq> [] then dict_set cm (pi_name prop_info) (lines prop_id prop_info) else cm)
            property_map cm))"
  by (induction property_map arbitrary: cm) (auto simp: distinct_dict_set)

text \<open>The entry under a name is that of the last property of that name that has tasks.\<close>

lemma fold_dict_lookup:
  "map_of (fold (\<lambda>(prop_id, prop_info) cm.
              if tasks_of prop_id \<noteq> [] then dict_set cm (pi_name prop_info) (lines prop_id prop_info) else cm)
            property_map cm) n =
   fold (\<lambda>(prop_id, prop_info) v.
              if tasks_of prop_id \<noteq> [] then Some (lines prop_id prop_info) else v)
        (filter (\<lambda>(prop_id, prop_info). pi_name prop_info = n) property_map) (map_of cm n)"
proof (induction property_map arbitrary: cm)
  case Nil
  then show ?case by simp
next
  case (Cons p property_map)
  obtain prop_id prop_info where p: "p = (prop_id, prop_info)" by (cases p)
  show ?case unfolding p by (simp add: Cons.IH map_of_dict_set)
qed

text \<open>
  Claim C10. The task mapping is keyed by the display name. When exactly two properties of
  the property map carry the name \<open>n\<close>, \<open>p1\<close> before \<open>p2\<close>, and the later one has
  housekeeping tasks today, the mapping has one entry for \<open>n\<close> and it holds the lines of
  \<open>p2\<close> only (those of \<open>p1\<close>, if it had tasks, are replaced). The check-ins section has at
  most one line for \<open>n\<close>. The fetches are assumed to return; \<open>tasks_of\<close> gives the tasks
  fetched for each property.
\<close>

theorem name_keyed_mapping:
  assumes "filter (\<lambda>(prop_id, prop_info). pi_name prop_info = n) property_map = [(p1, i1), (p2, i2)]"
    and "\<forall>(prop_id, prop_info) \<in> set property_map. fetch_tasks prop_id today src = Some (tasks_of prop_id)"
    and "tasks_of p2 \<noteq> []"
    and "fetch_reservations today src False = Some checkouts"
    and "\<forall>pid lcd. \<exists>ts. fetch_window src pid lcd today = Some ts"
  shows "(\<exists>cleaning_map. cleaning_map_loop src today property_map [] = Some cleaning_map
            \<and> distinct (map fst cleaning_map)
            \<and> map_of cleaning_map n = Some (cleaning_task_loop n (tasks_of p2) []))
       \<and> (\<exists>printed entries.
            checkin_loop src today fallback property_map checkins {} [] = Some (Inr (printed, entries))
            \<and> length (filter (\<lambda>e. fst e = n) entries) \<le> 1)"
proof
  let ?cm = "fold (\<lambda>(prop_id, prop_info) cm.
              if tasks_of prop_id \<noteq> []
              then dict_set cm (pi_name prop_info) (cleaning_task_loop (pi_name prop_info) (tasks_of prop_id) [])
              else cm) property_map []"
  have l: "cleaning_map_loop src today property_map [] = Some ?cm"
    by (rule cleaning_map_loop_fold [OF assms(2)])
  have d: "distinct (map fst ?cm)"
    by (rule fold_dict_distinct) simp
  have "(p2, i2) \<in> set (filter (\<lambda>(prop_id, prop_info). pi_name prop_info = n) property_map)"
    unfolding assms(1) by simp
  then have n2: "pi_name i2 = n" by simp
  have "map_of ?cm n = Some (cleaning_task_loop n (tasks_of p2) [])"
    unfolding fold_dict_lookup [where lines = "\<lambda>prop_id prop_info.
        cleaning_task_loop (pi_name prop_info) (tasks_of prop_id) []"] assms(1)
    using assms(3) n2 by simp
  with l d show "\<exists>cleaning_map. cleaning_map_loop src today property_map [] = Some cleaning_map
            \<and> distinct (map fst cleaning_map)
            \<and> map_of cleaning_map n = Some (cleaning_task_loop n (tasks_of p2) [])"
    by blast
next
  from checkin_loop_entries [OF assms(4,5), of fallback property_map checkins "{}" "[]"]
  obtain new where
    l: "checkin_loop src today fallback property_map checkins {} [] = Some (Inr (fst ` set new, new))"
    and d: "distinct (map fst new)"
    by auto
  from d have "length (filter (\<lambda>e. fst e = n) new) \<le> 1" by (rule filter_distinct_key_le)
  with l show "\<exists>printed entries.
            checkin_loop src today fallback property_map checkins {} [] = Some (Inr (printed, entries))
            \<and> length (filter (\<lambda>e. fst e = n) entries) \<le> 1"
    by blast
qed

lemma fetch_tasks_twin_source:
  "fetch_tasks home_id date twin_source =
     Some (if home_id = Some 5 then [shared_task] else if home_id = Some 8 then [open_task] else [])"
proof -
  have "get_task twin_source home_id date =
      paged (if home_id = Some 5 then [shared_task] else if home_id = Some 8 then [open_task] else [])"
    by (simp add: twin_source_def)
  from fetch_tasks_run_paged [OF this] show ?thesis
    by (simp add: fetch_tasks_def housekeeping_tasks_def shared_task_def open_task_def)
qed

text \<open>
  Witness for C10: properties 5 and 8 are both called Casa Azul; property 5 has a task with two
  cleaners, property 8 a task nobody is assigned to. The mapping keeps the line of property 8.
\<close>

theorem name_keyed_mapping_witness:
  "(\<exists>cleaning_map.
      cleaning_map_loop twin_source ''2024-05-02''
        [(Some 5, \<lparr>pi_name = ''Casa Azul''\<rparr>), (Some 8, \<lparr>pi_name = ''Casa Azul''\<rparr>)] [] = Some cleaning_map
      \<and> map_of cleaning_map ''Casa Azul'' = Some [''Casa Azul - Departure clean - Not assigned''])
   \<and> (\<exists>printed entries.
      checkin_loop twin_source ''2024-05-02'' ''2024-02-02''
        [(Some 5, \<lparr>pi_name = ''Casa Azul''\<rparr>), (Some 8, \<lparr>pi_name = ''Casa Azul''\<rparr>)]
        [a_reservation, a_reservation\<lparr>property_id := Some 8\<rparr>] {} [] = Some (Inr (printed, entries))
      \<and> length (filter (\<lambda>e. fst e = ''Casa Azul'') entries) \<le> 1)"
proof -
  let ?pm = "[(Some 5, \<lparr>pi_name = ''Casa Azul''\<rparr>), (Some 8, \<lparr>pi_name = ''Casa Azul''\<rparr>)]"
  let ?tasks_of = "\<lambda>home_id :: int option.
     if home_id = Some 5 then [shared_task] else if home_id = Some 8 then [open_task] else []"
  have flt: "filter (\<lambda>(prop_id, prop_info). pi_name prop_info = ''Casa Azul'') ?pm
               = [(Some 5, \<lparr>pi_name = ''Casa Azul''\<rparr>), (Some 8, \<lparr>pi_name = ''Casa Azul''\<rparr>)]"
    by simp
  have t: "\<forall>(prop_id, prop_info) \<in> set ?pm.
             fetch_tasks prop_id ''2024-05-02'' twin_source = Some (?tasks_of prop_id)"
    by (simp only: fetch_tasks_twin_source) simp
  have ne: "?tasks_of (Some 8) \<noteq> []" by simp
  have co: "fetch_reservations ''2024-05-02'' twin_source False = Some []"
    using fetch_reservations_run_fail [of "[]" twin_source False "''2024-05-02''"]
    by (simp add: fetch_reservations_def twin_source_def no_source_def)
  have win: "\<forall>pid lcd. \<exists>ts. fetch_window twin_source pid lcd ''2024-05-02'' = Some ts"
    by (simp add: fetch_window_def twin_source_def no_source_def window_loop.simps)
  note inst = name_keyed_mapping [OF flt t ne co win, of "''2024-02-02''"
      "[a_reservation, a_reservation\<lparr>property_id := Some 8\<rparr>]"]
  from conjunct1 [OF inst] obtain cleaning_map where
    l: "cleaning_map_loop twin_source ''2024-05-02'' ?pm [] = Some cleaning_map"
    and m: "map_of cleaning_map ''Casa Azul'' = Some (cleaning_task_loop ''Casa Azul'' (?tasks_of (Some 8)) [])"
    by blast
  have "cleaning_task_loop ''Casa Azul'' (?tasks_of (Some 8)) []
          = [''Casa Azul - Departure clean - Not assigned'']"
    by (simp add: open_task_def task_label_def or_default_def)
  with l m have first: "\<exists>cleaning_map. cleaning_map_loop twin_source ''2024-05-02'' ?pm [] = Some cleaning_map
      \<and> map_of cleaning_map ''Casa Azul'' = Some [''Casa Azul - Departure clean - Not assigned'']"
    by simp
  from first conjunct2 [OF inst] show ?thesis by (rule conjI)
qed

section \<open>The report without active properties\<close>

lemma checkout_loop_no_properties:
  "checkout_loop [] cleaning_map ress checkout_props out = (checkout_props, out)"
  by (induction ress) simp_all

lemma checkin_section_no_properties:
  "checkin_section src today fallback [] checkins =
     Some (Inr (''Check-ins today:'' # (if checkins = [] then [''No check-ins today.''] else [])))"
proof -
  have "checkin_loop src today fallback [] checkins {} [] = Some (Inr ({}, []))"
    by (rule checkin_loop_unknown) simp
  then show ?thesis by (simp add: checkin_section_def)
qed

lemma fetch_yesterday_no_properties:
  "fetch_property_map src = Some [] \<Longrightarrow>
   fetch_yesterday_cleanings src yesterday = Some (yesterday_header yesterday)"
  by (simp add: fetch_yesterday_cleanings_def)

lemma main_no_properties:
  assumes "fetch_property_map src = Some []"
    and "fetch_reservations today src True = Some checkins"
    and "fetch_reservations today src False = Some checkouts"
  shows "main src today yesterday fallback =
     Some (Inr (join_lines
             ([today_header today, ''Check-ins today:'']
                @ (if checkins = [] then [''No check-ins today.''] else [])
                @ [nl @ ''Check-outs today:'']
                @ (if checkouts = [] then [''No check-outs today.''] else [])
                @ [nl @ ''Pending cleanings:'', ''No pending cleanings today.''])
           @ nl @ nl @ yesterday_header yesterday))"
proof -
  have co: "checkout_section [] [] checkouts =
      ({}, (nl @ ''Check-outs today:'') # (if checkouts = [] then [''No check-outs today.''] else []))"
    by (simp add: checkout_section_def checkout_loop_no_properties)
  have pe: "pending_section [] {} = [nl @ ''Pending cleanings:'', ''No pending cleanings today.'']"
    by (simp add: pending_section_def)
  show ?thesis
    unfolding main_def
    by (simp add: assms checkin_section_no_properties fetch_yesterday_no_properties [OF assms(1)] co pe)
qed

text \<open>
  Claim C3, as stated, gives every section a placeholder line when there are no active
  properties. Counterexample: a source every request to which fails, so that there are no
  properties and no reservations. The three sections of today get their placeholders, but
  yesterday's summary is its header line alone: the message ends with that header.
\<close>

theorem yesterday_placeholder_counterexample:
  "fetch_property_map no_source = Some []
   \<and> fetch_yesterday_cleanings no_source ''2024-05-01''
       = Some (nl @ ''Yesterday'' @ rsquo @ ''s Cleaning Summary (2024-05-01)'')
   \<and> main no_source ''2024-05-02'' ''2024-05-01'' ''2024-02-02''
       = Some (Inr (join_lines
           [''Today'' @ rsquo @ ''s Cleaning Summary (2024-05-02)'' @ nl,
            ''Check-ins today:'', ''No check-ins today.'',
            nl @ ''Check-outs today:'', ''No check-outs today.'',
            nl @ ''Pending cleanings:'', ''No pending cleanings today.'']
         @ nl @ nl @ nl @ ''Yesterday'' @ rsquo @ ''s Cleaning Summary (2024-05-01)''))"
proof -
  have y: "fetch_yesterday_cleanings no_source ''2024-05-01''
       = Some (nl @ ''Yesterday'' @ rsquo @ ''s Cleaning Summary (2024-05-01)'')"
    using fetch_yesterday_no_properties [OF fetch_property_map_no_source, of "''2024-05-01''"]
    by (simp add: yesterday_header_def)
  have m: "main no_source ''2024-05-02'' ''2024-05-01'' ''2024-02-02''
       = Some (Inr (join_lines
           [''Today'' @ rsquo @ ''s Cleaning Summary (2024-05-02)'' @ nl,
            ''Check-ins today:'', ''No check-ins today.'',
            nl @ ''Check-outs today:'', ''No check-outs today.'',
            nl @ ''Pending cleanings:'', ''No pending cleanings today.'']
         @ nl @ nl @ nl @ ''Yesterday'' @ rsquo @ ''s Cleaning Summary (2024-05-01)''))"
    using main_no_properties [OF fetch_property_map_no_source
        fetch_reservations_no_source fetch_reservations_no_source,
        of "''2024-05-02''" "''2024-05-01''" "''2024-02-02''"]
    by (simp add: today_header_def yesterday_header_def)
  from fetch_property_map_no_source y m show ?thesis by simp
qed

text \<open>
  Claim C3, amended. When there are no active properties, the message is assembled and
  returned without an error. The pending section is its header and its placeholder line. The
  check-ins section and the check-outs section are their header, followed by the placeholder line
  when the list of today's check-in (check-out) reservations is empty, and by nothing when that
  list holds reservations (all of them for unknown properties). Yesterday's summary is its
  header line alone: that section has no placeholder.
\<close>

theorem report_without_properties:
  assumes "fetch_property_map src = Some []"
    and "fetch_reservations today src True = Some checkins"
    and "fetch_reservations today src False = Some checkouts"
  shows "main src today yesterday fallback =
     Some (Inr (join_lines
             ([today_header today, ''Check-ins today:'']
                @ (if checkins = [] then [''No check-ins today.''] else [])
                @ [nl @ ''Check-outs today:'']
                @ (if checkouts = [] then [''No check-outs today.''] else [])
                @ [nl @ ''Pending cleanings:'', ''No pending cleanings today.''])
           @ nl @ nl @ yesterday_header yesterday))"
  using assms by (rule main_no_properties)

text \<open>
  Witness for C3: no property is fetched, there is one check-in reservation today (for a
  property that is therefore unknown) and no check-out.
\<close>

theorem report_without_properties_witness:
  "main (no_source\<lparr>get_reservation := \<lambda>checkin date. if checkin then paged [a_reservation] else paged []\<rparr>)
       ''2024-05-02'' ''2024-05-01'' ''2024-02-02''
     = Some (Inr (join_lines
           [today_header ''2024-05-02'',
            ''Check-ins today:'',
            nl @ ''Check-outs today:'', ''No check-outs today.'',
            nl @ ''Pending cleanings:'', ''No pending cleanings today.'']
         @ nl @ nl @ yesterday_header ''2024-05-01''))"
proof -
  let ?src = "no_source\<lparr>get_reservation := \<lambda>checkin date. if checkin then paged [a_reservation] else paged []\<rparr>"
  have p: "fetch_property_map ?src = Some []"
    using fetch_property_map_run_fail [of "[]" ?src]
    by (simp add: fetch_property_map_def no_source_def)
  have "get_reservation ?src True ''2024-05-02'' = paged [a_reservation]" by simp
  from fetch_reservations_run_paged [OF this]
  have i: "fetch_reservations ''2024-05-02'' ?src True = Some [a_reservation]"
    by (simp add: fetch_reservations_def)
  have "get_reservation ?src False ''2024-05-02'' = paged []" by simp
  from fetch_reservations_run_paged [OF this]
  have o: "fetch_reservations ''2024-05-02'' ?src False = Some []"
    by (simp add: fetch_reservations_def)
  from report_without_properties [OF p i o, of "''2024-05-01''" "''2024-02-02''"]
  show ?thesis by simp
qed

end
